theory Spec2Isabelle
  imports Main "HOL-Library.Word"
begin

unbundle bit_operations_syntax

section \<open>The RSocket binary framing codec\<close>

text \<open>
  A shallow embedding of \<^verbatim>\<open>RSocketBinaryFraming\<close>, \<^verbatim>\<open>RSocketBufferUtils\<close> and
  \<^verbatim>\<open>RSocketEncoding\<close>. JavaScript numbers that the codec handles are integers and are
  modelled as \<^typ>\<open>int\<close>; offsets and lengths are \<^typ>\<open>nat\<close>. A thrown exception is the
  left summand of \<open>error + 'a\<close>.
\<close>

subsection \<open>Errors\<close>

datatype error = InvariantViolation | RangeError | TruncatedError

definition bindE :: "error + 'a \<Rightarrow> ('a \<Rightarrow> error + 'b) \<Rightarrow> error + 'b" where
  "bindE m f = (case m of Inl e \<Rightarrow> Inl e | Inr x \<Rightarrow> f x)"

text \<open>\<^verbatim>\<open>invariant(cond, msg)\<close> of fbjs: continue when the condition holds, throw otherwise.\<close>

definition invariant :: "bool \<Rightarrow> error + 'a \<Rightarrow> error + 'a" where
  "invariant c k = (if c then k else Inl InvariantViolation)"

subsection \<open>JavaScript bitwise operators\<close>

text \<open>
  The operators convert their operands to 32 bits first: \<^verbatim>\<open><<\<close>, \<^verbatim>\<open>&\<close> and \<^verbatim>\<open>|\<close> give a
  signed result, \<^verbatim>\<open>>>>\<close> an unsigned one.
\<close>

definition ToInt32 :: "int \<Rightarrow> int" where
  "ToInt32 x = signed_take_bit 31 x"

definition js_shl :: "int \<Rightarrow> nat \<Rightarrow> int" where
  "js_shl x n = ToInt32 (push_bit n x)"

definition js_ushr :: "int \<Rightarrow> nat \<Rightarrow> int" where
  "js_ushr x n = drop_bit n (take_bit 32 x)"

definition js_and :: "int \<Rightarrow> int \<Rightarrow> int" where
  "js_and x y = ToInt32 (x AND y)"

definition js_or :: "int \<Rightarrow> int \<Rightarrow> int" where
  "js_or x y = ToInt32 (x OR y)"

subsection \<open>The byte buffer\<close>

text \<open>
  Modelled from the spec: the \<^verbatim>\<open>bytebuffer\<close> package is not part of the repository. A
  buffer is the byte sequence of section 9 of the specification: its \<^verbatim>\<open>limit\<close> is its
  length, reads and writes are big-endian at an absolute offset, a read or a slice outside
  the buffer throws \<^verbatim>\<open>RangeError\<close>, a write keeps the low bits of its value and makes the
  sequence grow when it ends beyond the last byte, and \<^verbatim>\<open>slice(start, end)\<close> is the
  sub-sequence of the bytes from \<open>start\<close> up to \<open>end\<close>.
\<close>

type_synonym byte = "8 word"
type_synonym ByteBuffer = "byte list"

definition allocate :: "nat \<Rightarrow> ByteBuffer" where
  "allocate n = replicate n 0"

definition put :: "byte list \<Rightarrow> nat \<Rightarrow> ByteBuffer \<Rightarrow> ByteBuffer" where
  "put bs offset buffer =
     take offset (buffer @ replicate (offset - length buffer) 0) @ bs
       @ drop (offset + length bs) buffer"

definition be_val :: "byte list \<Rightarrow> int" where
  "be_val bs = foldl (\<lambda>acc b. acc * 256 + uint b) 0 bs"

definition rd :: "nat \<Rightarrow> ByteBuffer \<Rightarrow> nat \<Rightarrow> error + int" where
  "rd n buffer offset =
     (if offset + n \<le> length buffer then Inr (be_val (take n (drop offset buffer)))
      else Inl RangeError)"

definition slice :: "ByteBuffer \<Rightarrow> nat \<Rightarrow> nat \<Rightarrow> error + ByteBuffer" where
  "slice buffer start end =
     (if start \<le> end \<and> end \<le> length buffer
      then Inr (take (end - start) (drop start buffer)) else Inl RangeError)"

definition copyTo :: "ByteBuffer \<Rightarrow> ByteBuffer \<Rightarrow> nat \<Rightarrow> nat \<Rightarrow> nat \<Rightarrow> ByteBuffer" where
  "copyTo source target targetOffset sourceOffset sourceLimit =
     put (take (sourceLimit - sourceOffset) (drop sourceOffset source)) targetOffset target"

definition writeUint8 :: "int \<Rightarrow> nat \<Rightarrow> ByteBuffer \<Rightarrow> ByteBuffer" where
  "writeUint8 v offset buffer = put [word_of_int v] offset buffer"

definition writeUint16 :: "int \<Rightarrow> nat \<Rightarrow> ByteBuffer \<Rightarrow> ByteBuffer" where
  "writeUint16 v offset buffer = put [word_of_int (v div 256), word_of_int v] offset buffer"

definition writeUint32 :: "int \<Rightarrow> nat \<Rightarrow> ByteBuffer \<Rightarrow> ByteBuffer" where
  "writeUint32 v offset buffer =
     put [word_of_int (v div 16777216), word_of_int (v div 65536), word_of_int (v div 256),
          word_of_int v] offset buffer"

definition writeInt32 :: "int \<Rightarrow> nat \<Rightarrow> ByteBuffer \<Rightarrow> ByteBuffer" where
  "writeInt32 v offset buffer = writeUint32 v offset buffer"

text \<open>
  \<^verbatim>\<open>writeUint64\<close> takes a number through \<^verbatim>\<open>Long.fromNumber\<close>, which saturates at the ends
  of the signed 64-bit range; \<^verbatim>\<open>readUint64(..).toNumber()\<close> gives the nearest double, ties
  to even, which is the value itself below \<open>2 ^ 53\<close>.
\<close>

definition fromNumber :: "int \<Rightarrow> int" where
  "fromNumber v =
     (if v \<le> - (2 ^ 63) then - (2 ^ 63) else if v + 1 \<ge> 2 ^ 63 then 2 ^ 63 - 1 else v)"

definition writeUint64 :: "int \<Rightarrow> nat \<Rightarrow> ByteBuffer \<Rightarrow> ByteBuffer" where
  "writeUint64 v offset buffer =
     (let l = fromNumber v in
      put [word_of_int (l div 72057594037927936), word_of_int (l div 281474976710656),
           word_of_int (l div 1099511627776), word_of_int (l div 4294967296),
           word_of_int (l div 16777216), word_of_int (l div 65536), word_of_int (l div 256),
           word_of_int l] offset buffer)"

definition toNumber :: "int \<Rightarrow> int" where
  "toNumber v =
     (if v < 2 ^ 53 then v
      else let e = (if v < 2 ^ 54 then 1 else if v < 2 ^ 55 then 2 else if v < 2 ^ 56 then 3
                    else if v < 2 ^ 57 then 4 else if v < 2 ^ 58 then 5
                    else if v < 2 ^ 59 then 6 else if v < 2 ^ 60 then 7
                    else if v < 2 ^ 61 then 8 else if v < 2 ^ 62 then 9
                    else if v < 2 ^ 63 then 10 else (11::nat));
               q = v div 2 ^ e; r = v mod 2 ^ e
           in (if 2 * r > 2 ^ e \<or> (2 * r = 2 ^ e \<and> odd q) then q + 1 else q) * 2 ^ e)"

definition readUint8 :: "ByteBuffer \<Rightarrow> nat \<Rightarrow> error + int" where
  "readUint8 buffer offset = rd 1 buffer offset"

definition readUint16 :: "ByteBuffer \<Rightarrow> nat \<Rightarrow> error + int" where
  "readUint16 buffer offset = rd 2 buffer offset"

definition readInt16 :: "ByteBuffer \<Rightarrow> nat \<Rightarrow> error + int" where
  "readInt16 buffer offset =
     bindE (rd 2 buffer offset) (\<lambda>u. Inr (if u \<ge> 32768 then u - 65536 else u))"

definition readUint32 :: "ByteBuffer \<Rightarrow> nat \<Rightarrow> error + int" where
  "readUint32 buffer offset = rd 4 buffer offset"

definition readInt32 :: "ByteBuffer \<Rightarrow> nat \<Rightarrow> error + int" where
  "readInt32 buffer offset =
     bindE (rd 4 buffer offset) (\<lambda>u. Inr (if u \<ge> 2147483648 then u - 4294967296 else u))"

definition readUint64 :: "ByteBuffer \<Rightarrow> nat \<Rightarrow> error + int" where
  "readUint64 buffer offset = rd 8 buffer offset"

subsection \<open>RSocketBufferUtils\<close>

definition readUint24 :: "ByteBuffer \<Rightarrow> nat \<Rightarrow> error + int" where
  "readUint24 buffer offset =
     bindE (readUint8 buffer offset) (\<lambda>b1. let val1 = js_shl b1 16 in
     bindE (readUint8 buffer (offset + 1)) (\<lambda>b2. let val2 = js_shl b2 8 in
     bindE (readUint8 buffer (offset + 2)) (\<lambda>val3.
     Inr (js_or (js_or val1 val2) val3))))"

definition writeUint24 :: "ByteBuffer \<Rightarrow> int \<Rightarrow> nat \<Rightarrow> ByteBuffer" where
  "writeUint24 buffer v offset =
     (let buffer = writeUint8 (js_ushr v 16) offset buffer;
          buffer = writeUint8 (js_and (js_ushr v 8) 255) (offset + 1) buffer;
          buffer = writeUint8 (js_and v 255) (offset + 2) buffer
      in buffer)"

subsection \<open>RSocketEncoding\<close>

text \<open>
  A JavaScript string is the list of its Unicode code points. Modelled from the spec: the
  UTF-8 functions of the \<^verbatim>\<open>bytebuffer\<close> package (\<^verbatim>\<open>calculateUTF8Bytes\<close>,
  \<^verbatim>\<open>writeUTF8String\<close>, \<^verbatim>\<open>toUTF8\<close>) are not part of the repository; they are the UTF-8
  encoding of one to four bytes for each code point. Decoding throws on a truncated sequence
  and on a byte that cannot start one.
\<close>

type_synonym jsstring = "nat list"

datatype encodable = Str jsstring | Buf ByteBuffer

definition calculateCodePoint :: "nat \<Rightarrow> nat" where
  "calculateCodePoint cp =
     (if cp < 128 then 1 else if cp < 2048 then 2 else if cp < 65536 then 3 else 4)"

definition calculateUTF8Bytes :: "jsstring \<Rightarrow> nat" where
  "calculateUTF8Bytes s = sum_list (map calculateCodePoint s)"

definition encodeUTF8char :: "nat \<Rightarrow> byte list" where
  "encodeUTF8char cp =
     (if cp < 128 then [of_nat cp]
      else if cp < 2048 then [of_nat (192 + cp div 64 mod 32), of_nat (128 + cp mod 64)]
      else if cp < 65536 then
        [of_nat (224 + cp div 4096 mod 16), of_nat (128 + cp div 64 mod 64),
         of_nat (128 + cp mod 64)]
      else
        [of_nat (240 + cp div 262144 mod 8), of_nat (128 + cp div 4096 mod 64),
         of_nat (128 + cp div 64 mod 64), of_nat (128 + cp mod 64)])"

definition encodeUTF8 :: "jsstring \<Rightarrow> byte list" where
  "encodeUTF8 s = concat (map encodeUTF8char s)"

definition writeUTF8String :: "jsstring \<Rightarrow> nat \<Rightarrow> ByteBuffer \<Rightarrow> ByteBuffer \<times> nat" where
  "writeUTF8String s offset buffer =
     (put (encodeUTF8 s) offset buffer, length (encodeUTF8 s))"

definition consE :: "'a \<Rightarrow> error + 'a list \<Rightarrow> error + 'a list" where
  "consE x m = bindE m (\<lambda>r. Inr (x # r))"

fun decodeUTF8 :: "byte list \<Rightarrow> error + jsstring" where
  "decodeUTF8 [] = Inr []"
| "decodeUTF8 (a # bs) =
     (if unat a < 128 then consE (unat a) (decodeUTF8 bs)
      else if 192 \<le> unat a \<and> unat a < 224 then
        (case bs of
           b # r \<Rightarrow> consE (unat a mod 32 * 64 + unat b mod 64) (decodeUTF8 r)
         | _ \<Rightarrow> Inl TruncatedError)
      else if 224 \<le> unat a \<and> unat a < 240 then
        (case bs of
           b # c # r \<Rightarrow>
             consE (unat a mod 16 * 4096 + unat b mod 64 * 64 + unat c mod 64) (decodeUTF8 r)
         | _ \<Rightarrow> Inl TruncatedError)
      else if 240 \<le> unat a \<and> unat a < 248 then
        (case bs of
           b # c # d # r \<Rightarrow>
             consE (unat a mod 8 * 262144 + unat b mod 64 * 4096 + unat c mod 64 * 64
                    + unat d mod 64) (decodeUTF8 r)
         | _ \<Rightarrow> Inl TruncatedError)
      else Inl RangeError)"

definition toUTF8 :: "ByteBuffer \<Rightarrow> error + jsstring" where
  "toUTF8 buffer = decodeUTF8 buffer"

record Encoder =
  byteLength :: "encodable \<Rightarrow> error + nat"
  decode :: "ByteBuffer \<Rightarrow> nat \<Rightarrow> nat \<Rightarrow> error + encodable"
  encode :: "encodable \<Rightarrow> ByteBuffer \<Rightarrow> nat \<Rightarrow> error + ByteBuffer \<times> nat"

text \<open>
  The fields of \<^verbatim>\<open>Encoders\<close> carry the prefix \<open>enc_\<close>: their names in the source are
  the names of the frame's fields.
\<close>

record Encoders =
  enc_data :: Encoder
  enc_dataMimeType :: Encoder
  enc_message :: Encoder
  enc_metadata :: Encoder
  enc_metadataMimeType :: Encoder
  enc_resumeToken :: Encoder

definition UTF8Encoder :: Encoder where
  "UTF8Encoder = \<lparr>
     byteLength = (\<lambda>v. case v of
        Str s \<Rightarrow> Inr (calculateUTF8Bytes s)
      | Buf _ \<Rightarrow> Inl InvariantViolation),
     decode = (\<lambda>buffer start end.
        bindE (slice buffer start end) (\<lambda>b. bindE (toUTF8 b) (\<lambda>s. Inr (Str s)))),
     encode = (\<lambda>v buffer offset. case v of
        Str s \<Rightarrow> (let (buffer, length) = writeUTF8String s offset buffer
                  in Inr (buffer, offset + length))
      | Buf _ \<Rightarrow> Inl InvariantViolation) \<rparr>"

definition BufferEncoder :: Encoder where
  "BufferEncoder = \<lparr>
     byteLength = (\<lambda>v. case v of
        Buf b \<Rightarrow> Inr (length b)
      | Str _ \<Rightarrow> Inl InvariantViolation),
     decode = (\<lambda>buffer start end. bindE (slice buffer start end) (\<lambda>b. Inr (Buf b))),
     encode = (\<lambda>v buffer offset. case v of
        Buf b \<Rightarrow> Inr (copyTo b buffer offset 0 (length b), offset + length b)
      | Str _ \<Rightarrow> Inl InvariantViolation) \<rparr>"

definition Utf8Encoders :: Encoders where
  "Utf8Encoders = \<lparr>
     enc_data = UTF8Encoder, enc_dataMimeType = UTF8Encoder, enc_message = UTF8Encoder,
     enc_metadata = UTF8Encoder, enc_metadataMimeType = UTF8Encoder,
     enc_resumeToken = UTF8Encoder \<rparr>"

definition BufferEncoders :: Encoders where
  "BufferEncoders = \<lparr>
     enc_data = BufferEncoder, enc_dataMimeType = UTF8Encoder, enc_message = UTF8Encoder,
     enc_metadata = BufferEncoder, enc_metadataMimeType = UTF8Encoder,
     enc_resumeToken = BufferEncoder \<rparr>"

subsection \<open>RSocketFrame: constants\<close>

text \<open>
  Modelled from the spec: \<^verbatim>\<open>RSocketFrame\<close> is not among the sources. The frame types are
  those of section 3.1 of the specification and the limits those of section 6.4; the
  METADATA flag is bit \<open>0x100\<close> of the RSocket framing that section 6.3 requires.
\<close>

definition FRAME_TYPES_SETUP :: int where "FRAME_TYPES_SETUP = 1"
definition FRAME_TYPES_LEASE :: int where "FRAME_TYPES_LEASE = 2"
definition FRAME_TYPES_KEEPALIVE :: int where "FRAME_TYPES_KEEPALIVE = 3"
definition FRAME_TYPES_REQUEST_RESPONSE :: int where "FRAME_TYPES_REQUEST_RESPONSE = 4"
definition FRAME_TYPES_REQUEST_FNF :: int where "FRAME_TYPES_REQUEST_FNF = 5"
definition FRAME_TYPES_REQUEST_STREAM :: int where "FRAME_TYPES_REQUEST_STREAM = 6"
definition FRAME_TYPES_REQUEST_CHANNEL :: int where "FRAME_TYPES_REQUEST_CHANNEL = 7"
definition FRAME_TYPES_REQUEST_N :: int where "FRAME_TYPES_REQUEST_N = 8"
definition FRAME_TYPES_CANCEL :: int where "FRAME_TYPES_CANCEL = 9"
definition FRAME_TYPES_PAYLOAD :: int where "FRAME_TYPES_PAYLOAD = 10"
definition FRAME_TYPES_ERROR :: int where "FRAME_TYPES_ERROR = 11"

definition FLAGS_MASK :: int where "FLAGS_MASK = 1023"
definition FRAME_TYPE_OFFFSET :: nat where "FRAME_TYPE_OFFFSET = 10"
definition FLAGS_METADATA :: int where "FLAGS_METADATA = 256"
definition MAX_CODE :: int where "MAX_CODE = 2147483647"
definition MAX_KEEPALIVE :: int where "MAX_KEEPALIVE = 2147483647"
definition MAX_LIFETIME :: int where "MAX_LIFETIME = 2147483647"
definition MAX_RESUME_LENGTH :: int where "MAX_RESUME_LENGTH = 65535"

definition isMetadata :: "int \<Rightarrow> bool" where
  "isMetadata flags \<longleftrightarrow> js_and flags FLAGS_METADATA = FLAGS_METADATA"

subsection \<open>RSocketTypes: frames\<close>

text \<open>
  The frame is a tagged union; the fields of each variant stand in the order of the object
  literals of the parser. A field that may be \<^verbatim>\<open>null\<close> is an option.
\<close>

datatype frame =
    SetupFrame (data: "encodable option") (dataMimeType: "encodable option") (flags: int)
      (keepAlive: int) (lifetime: int) (majorVersion: int) (metadata: "encodable option")
      (metadataMimeType: "encodable option") (minorVersion: int)
      (resumeToken: "encodable option") (streamId: int)
  | ErrorFrame (code: int) (flags: int) (message: "encodable option") (streamId: int)
  | KeepAliveFrame (data: "encodable option") (flags: int) (lastReceivedPosition: int)
      (streamId: int)
  | LeaseFrame (flags: int) (metadata: "encodable option") (requestCount: int)
      (streamId: int) (ttl: int)
  | RequestFnfFrame (data: "encodable option") (flags: int) (metadata: "encodable option")
      (streamId: int)
  | RequestResponseFrame (data: "encodable option") (flags: int)
      (metadata: "encodable option") (streamId: int)
  | RequestStreamFrame (data: "encodable option") (flags: int)
      (metadata: "encodable option") (requestN: int) (streamId: int)
  | RequestChannelFrame (data: "encodable option") (flags: int)
      (metadata: "encodable option") (requestN: int) (streamId: int)
  | RequestNFrame (flags: int) (requestN: int) (streamId: int)
  | CancelFrame (flags: int) (streamId: int)
  | PayloadFrame (data: "encodable option") (flags: int) (metadata: "encodable option")
      (streamId: int)

text \<open>The \<^verbatim>\<open>type\<close> field of a frame.\<close>

fun frame_type :: "frame \<Rightarrow> int" where
  "frame_type (SetupFrame _ _ _ _ _ _ _ _ _ _ _) = FRAME_TYPES_SETUP"
| "frame_type (ErrorFrame _ _ _ _) = FRAME_TYPES_ERROR"
| "frame_type (KeepAliveFrame _ _ _ _) = FRAME_TYPES_KEEPALIVE"
| "frame_type (LeaseFrame _ _ _ _ _) = FRAME_TYPES_LEASE"
| "frame_type (RequestFnfFrame _ _ _ _) = FRAME_TYPES_REQUEST_FNF"
| "frame_type (RequestResponseFrame _ _ _ _) = FRAME_TYPES_REQUEST_RESPONSE"
| "frame_type (RequestStreamFrame _ _ _ _ _) = FRAME_TYPES_REQUEST_STREAM"
| "frame_type (RequestChannelFrame _ _ _ _ _) = FRAME_TYPES_REQUEST_CHANNEL"
| "frame_type (RequestNFrame _ _ _) = FRAME_TYPES_REQUEST_N"
| "frame_type (CancelFrame _ _) = FRAME_TYPES_CANCEL"
| "frame_type (PayloadFrame _ _ _ _) = FRAME_TYPES_PAYLOAD"

text \<open>The assignments \<^verbatim>\<open>frame.metadata = ..\<close> and \<^verbatim>\<open>frame.data = ..\<close> of \<^verbatim>\<open>readPayload\<close>.\<close>

fun set_metadata :: "encodable option \<Rightarrow> frame \<Rightarrow> frame" where
  "set_metadata m (SetupFrame d dm fl ka lt mj _ mm mi rt sid) =
     SetupFrame d dm fl ka lt mj m mm mi rt sid"
| "set_metadata m (LeaseFrame fl _ rc sid t) = LeaseFrame fl m rc sid t"
| "set_metadata m (RequestFnfFrame d fl _ sid) = RequestFnfFrame d fl m sid"
| "set_metadata m (RequestResponseFrame d fl _ sid) = RequestResponseFrame d fl m sid"
| "set_metadata m (RequestStreamFrame d fl _ n sid) = RequestStreamFrame d fl m n sid"
| "set_metadata m (RequestChannelFrame d fl _ n sid) = RequestChannelFrame d fl m n sid"
| "set_metadata m (PayloadFrame d fl _ sid) = PayloadFrame d fl m sid"
| "set_metadata m f = f"

fun set_data :: "encodable option \<Rightarrow> frame \<Rightarrow> frame" where
  "set_data d (SetupFrame _ dm fl ka lt mj m mm mi rt sid) =
     SetupFrame d dm fl ka lt mj m mm mi rt sid"
| "set_data d (KeepAliveFrame _ fl p sid) = KeepAliveFrame d fl p sid"
| "set_data d (RequestFnfFrame _ fl m sid) = RequestFnfFrame d fl m sid"
| "set_data d (RequestResponseFrame _ fl m sid) = RequestResponseFrame d fl m sid"
| "set_data d (RequestStreamFrame _ fl m n sid) = RequestStreamFrame d fl m n sid"
| "set_data d (RequestChannelFrame _ fl m n sid) = RequestChannelFrame d fl m n sid"
| "set_data d (PayloadFrame _ fl m sid) = PayloadFrame d fl m sid"
| "set_data d f = f"

subsection \<open>RSocketBinaryFraming\<close>

definition FRAME_HEADER_SIZE :: nat where "FRAME_HEADER_SIZE = 6"
definition UINT24_SIZE :: nat where "UINT24_SIZE = 3"
definition SETUP_FIXED_SIZE :: nat where "SETUP_FIXED_SIZE = 16"
definition ERROR_FIXED_SIZE :: nat where "ERROR_FIXED_SIZE = 4"
definition KEEPALIVE_FIXED_SIZE :: nat where "KEEPALIVE_FIXED_SIZE = 8"
definition LEASE_FIXED_SIZE :: nat where "LEASE_FIXED_SIZE = 8"
definition REQUEST_MANY_HEADER :: nat where "REQUEST_MANY_HEADER = 4"
definition REQUEST_N_HEADER :: nat where "REQUEST_N_HEADER = 4"

text \<open>
  \<^verbatim>\<open>writeHeader(frame, buffer)\<close> reads the fields \<^verbatim>\<open>streamId\<close>, \<^verbatim>\<open>type\<close> and \<^verbatim>\<open>flags\<close> of its
  frame; they are its arguments here. It returns the buffer it has written and the next
  offset.
\<close>

definition writeHeader :: "int \<Rightarrow> int \<Rightarrow> int \<Rightarrow> ByteBuffer \<Rightarrow> ByteBuffer \<times> nat" where
  "writeHeader = (\<lambda>streamId type flags buffer.
     let buffer = writeInt32 streamId 0 buffer;
         buffer = writeUint16
           (js_or (js_shl type FRAME_TYPE_OFFFSET) (js_and flags FLAGS_MASK)) 4 buffer
     in (buffer, FRAME_HEADER_SIZE))"

text \<open>An optional value handed to an encoder's \<^verbatim>\<open>byteLength\<close>: \<open>0\<close> when it is \<^verbatim>\<open>null\<close>.\<close>

definition lengthOf :: "Encoder \<Rightarrow> encodable option \<Rightarrow> error + nat" where
  "lengthOf e v = (case v of Some x \<Rightarrow> byteLength e x | None \<Rightarrow> Inr 0)"

text \<open>An optional value handed to an encoder's \<^verbatim>\<open>encode\<close>: nothing is written when it is \<^verbatim>\<open>null\<close>.\<close>

definition encodeOpt ::
  "Encoder \<Rightarrow> encodable option \<Rightarrow> ByteBuffer \<Rightarrow> nat \<Rightarrow> error + ByteBuffer \<times> nat" where
  "encodeOpt e v buffer offset =
     (case v of Some x \<Rightarrow> encode e x buffer offset | None \<Rightarrow> Inr (buffer, offset))"

definition getPayloadLength :: "frame \<Rightarrow> Encoders \<Rightarrow> error + nat" where
  "getPayloadLength frame encoders =
     bindE (case data frame of
              Some d \<Rightarrow> bindE (byteLength (enc_data encoders) d) (\<lambda>n. Inr (0 + n))
            | None \<Rightarrow> Inr 0) (\<lambda>payloadLength.
     if isMetadata (flags frame) then
       (let payloadLength = payloadLength + UINT24_SIZE in
        case metadata frame of
          Some m \<Rightarrow> bindE (byteLength (enc_metadata encoders) m) (\<lambda>n. Inr (payloadLength + n))
        | None \<Rightarrow> Inr payloadLength)
     else Inr payloadLength)"

definition writePayload :: "frame \<Rightarrow> ByteBuffer \<Rightarrow> Encoders \<Rightarrow> nat \<Rightarrow> error + ByteBuffer" where
  "writePayload frame buffer encoders offset =
     bindE (if isMetadata (flags frame) then
              (case metadata frame of
                 Some m \<Rightarrow>
                   bindE (byteLength (enc_metadata encoders) m) (\<lambda>metaLength.
                   let buffer = writeUint24 buffer (int metaLength) offset;
                       offset = offset + UINT24_SIZE
                   in encode (enc_metadata encoders) m buffer offset)
               | None \<Rightarrow>
                   (let buffer = writeUint24 buffer 0 offset;
                        offset = offset + UINT24_SIZE
                    in Inr (buffer, offset)))
            else Inr (buffer, offset)) (\<lambda>(buffer, offset).
     case data frame of
       Some d \<Rightarrow> bindE (encode (enc_data encoders) d buffer offset) (\<lambda>(buffer, _). Inr buffer)
     | None \<Rightarrow> Inr buffer)"

definition readPayload :: "ByteBuffer \<Rightarrow> frame \<Rightarrow> Encoders \<Rightarrow> nat \<Rightarrow> error + frame" where
  "readPayload buffer frame encoders offset =
     bindE (if isMetadata (flags frame) then
              bindE (readUint24 buffer offset) (\<lambda>metaLength.
              let offset = offset + UINT24_SIZE in
              if metaLength > 0 then
                bindE (decode (enc_metadata encoders) buffer offset (offset + nat metaLength))
                  (\<lambda>m. Inr (set_metadata (Some m) frame, offset + nat metaLength))
              else Inr (frame, offset))
            else Inr (frame, offset)) (\<lambda>(frame, offset).
     if offset < length buffer then
       bindE (decode (enc_data encoders) buffer offset (length buffer))
         (\<lambda>d. Inr (set_data (Some d) frame))
     else Inr frame)"

definition serializeSetupFrame :: "frame \<Rightarrow> Encoders \<Rightarrow> error + ByteBuffer" where
  "serializeSetupFrame frame encoders =
     bindE (lengthOf (enc_resumeToken encoders) (resumeToken frame)) (\<lambda>resumeTokenLength.
     bindE (lengthOf (enc_metadataMimeType encoders) (metadataMimeType frame))
       (\<lambda>metadataMimeTypeLength.
     bindE (lengthOf (enc_dataMimeType encoders) (dataMimeType frame)) (\<lambda>dataMimeTypeLength.
     bindE (getPayloadLength frame encoders) (\<lambda>payloadLength.
     let buffer = allocate (FRAME_HEADER_SIZE + SETUP_FIXED_SIZE + resumeTokenLength
                    + metadataMimeTypeLength + dataMimeTypeLength + payloadLength);
         (buffer, offset) = writeHeader (streamId frame) (frame_type frame) (flags frame) buffer;
         buffer = writeUint16 (majorVersion frame) offset buffer;
         offset = offset + 2;
         buffer = writeUint16 (minorVersion frame) offset buffer;
         offset = offset + 2;
         buffer = writeUint32 (keepAlive frame) offset buffer;
         offset = offset + 4;
         buffer = writeUint32 (lifetime frame) offset buffer;
         offset = offset + 4;
         buffer = writeUint16 (int resumeTokenLength) offset buffer;
         offset = offset + 2
     in
     bindE (encodeOpt (enc_resumeToken encoders) (resumeToken frame) buffer offset)
       (\<lambda>(buffer, offset).
     let buffer = writeUint8 (int metadataMimeTypeLength) offset buffer;
         offset = offset + 1
     in
     bindE (encodeOpt (enc_metadataMimeType encoders) (metadataMimeType frame) buffer offset)
       (\<lambda>(buffer, offset).
     let buffer = writeUint8 (int dataMimeTypeLength) offset buffer;
         offset = offset + 1
     in
     bindE (encodeOpt (enc_dataMimeType encoders) (dataMimeType frame) buffer offset)
       (\<lambda>(buffer, offset).
     writePayload frame buffer encoders offset)))))))"

definition deserializeSetupFrame ::
  "ByteBuffer \<Rightarrow> int \<Rightarrow> int \<Rightarrow> Encoders \<Rightarrow> error + frame" where
  "deserializeSetupFrame = (\<lambda>buffer streamId flags encoders.
     invariant (streamId = 0) (
     let offset = FRAME_HEADER_SIZE in
     bindE (readUint16 buffer offset) (\<lambda>majorVersion.
     let offset = offset + 2 in
     bindE (readUint16 buffer offset) (\<lambda>minorVersion.
     let offset = offset + 2 in
     bindE (readInt32 buffer offset) (\<lambda>keepAlive.
     let offset = offset + 4 in
     invariant (keepAlive \<ge> 0 \<and> keepAlive \<le> MAX_KEEPALIVE) (
     bindE (readInt32 buffer offset) (\<lambda>lifetime.
     let offset = offset + 4 in
     invariant (lifetime \<ge> 0 \<and> lifetime \<le> MAX_LIFETIME) (
     bindE (readInt16 buffer offset) (\<lambda>resumeTokenLength.
     let offset = offset + 2 in
     invariant (resumeTokenLength \<ge> 0 \<and> resumeTokenLength \<le> MAX_RESUME_LENGTH) (
     bindE (decode (enc_resumeToken encoders) buffer offset (offset + nat resumeTokenLength))
       (\<lambda>resumeToken.
     let offset = offset + nat resumeTokenLength in
     bindE (readUint8 buffer offset) (\<lambda>metadataMimeTypeLength.
     let offset = offset + 1 in
     bindE (decode (enc_metadataMimeType encoders) buffer offset
              (offset + nat metadataMimeTypeLength)) (\<lambda>metadataMimeType.
     let offset = offset + nat metadataMimeTypeLength in
     bindE (readUint8 buffer offset) (\<lambda>dataMimeTypeLength.
     let offset = offset + 1 in
     bindE (decode (enc_dataMimeType encoders) buffer offset
              (offset + nat dataMimeTypeLength)) (\<lambda>dataMimeType.
     let offset = offset + nat dataMimeTypeLength;
         frame = SetupFrame None (Some dataMimeType) flags keepAlive lifetime majorVersion
                   None (Some metadataMimeType) minorVersion (Some resumeToken) streamId
     in readPayload buffer frame encoders offset)))))))))))))))"

definition serializeErrorFrame :: "frame \<Rightarrow> Encoders \<Rightarrow> error + ByteBuffer" where
  "serializeErrorFrame frame encoders =
     bindE (lengthOf (enc_message encoders) (message frame)) (\<lambda>messageLength.
     let buffer = allocate (FRAME_HEADER_SIZE + ERROR_FIXED_SIZE + messageLength);
         (buffer, offset) = writeHeader (streamId frame) (frame_type frame) (flags frame) buffer;
         buffer = writeUint32 (code frame) offset buffer;
         offset = offset + 4
     in
     bindE (encodeOpt (enc_message encoders) (message frame) buffer offset)
       (\<lambda>(buffer, _). Inr buffer))"

definition deserializeErrorFrame ::
  "ByteBuffer \<Rightarrow> int \<Rightarrow> int \<Rightarrow> Encoders \<Rightarrow> error + frame" where
  "deserializeErrorFrame = (\<lambda>buffer streamId flags encoders.
     (let offset = FRAME_HEADER_SIZE in
      bindE (readInt32 buffer offset) (\<lambda>code.
      let offset = offset + 4 in
      invariant (code \<ge> 0 \<and> code \<le> MAX_CODE) (
      let messageLength = int (length buffer) - int offset in
      bindE (if messageLength > 0
             then decode (enc_message encoders) buffer offset (offset + nat messageLength)
             else Inr (Str [])) (\<lambda>message.
      Inr (ErrorFrame code flags (Some message) streamId))))))"

definition serializeKeepAliveFrame :: "frame \<Rightarrow> Encoders \<Rightarrow> error + ByteBuffer" where
  "serializeKeepAliveFrame frame encoders =
     bindE (lengthOf (enc_data encoders) (data frame)) (\<lambda>dataLength.
     let buffer = allocate (FRAME_HEADER_SIZE + KEEPALIVE_FIXED_SIZE + dataLength);
         (buffer, offset) = writeHeader (streamId frame) (frame_type frame) (flags frame) buffer;
         buffer = writeUint64 (lastReceivedPosition frame) offset buffer;
         offset = offset + 8
     in
     bindE (encodeOpt (enc_data encoders) (data frame) buffer offset)
       (\<lambda>(buffer, _). Inr buffer))"

definition deserializeKeepAliveFrame ::
  "ByteBuffer \<Rightarrow> int \<Rightarrow> int \<Rightarrow> Encoders \<Rightarrow> error + frame" where
  "deserializeKeepAliveFrame = (\<lambda>buffer streamId flags encoders.
     invariant (streamId = 0) (
     let offset = FRAME_HEADER_SIZE in
     bindE (readUint64 buffer offset) (\<lambda>l.
     let lastReceivedPosition = toNumber l;
         offset = offset + 8
     in
     bindE (if offset < length buffer
            then bindE (decode (enc_data encoders) buffer offset (length buffer))
                   (\<lambda>d. Inr (Some d))
            else Inr None) (\<lambda>data.
     Inr (KeepAliveFrame data flags lastReceivedPosition streamId)))))"

definition serializeLeaseFrame :: "frame \<Rightarrow> Encoders \<Rightarrow> error + ByteBuffer" where
  "serializeLeaseFrame frame encoders =
     bindE (lengthOf (enc_metadata encoders) (metadata frame)) (\<lambda>metaLength.
     let buffer = allocate (FRAME_HEADER_SIZE + LEASE_FIXED_SIZE + metaLength);
         (buffer, offset) = writeHeader (streamId frame) (frame_type frame) (flags frame) buffer;
         buffer = writeUint32 (ttl frame) offset buffer;
         offset = offset + 4;
         buffer = writeUint32 (requestCount frame) offset buffer;
         offset = offset + 4
     in
     bindE (encodeOpt (enc_metadata encoders) (metadata frame) buffer offset)
       (\<lambda>(buffer, _). Inr buffer))"

definition deserializeLeaseFrame ::
  "ByteBuffer \<Rightarrow> int \<Rightarrow> int \<Rightarrow> Encoders \<Rightarrow> error + frame" where
  "deserializeLeaseFrame = (\<lambda>buffer streamId flags encoders.
     invariant (streamId = 0) (
     let offset = FRAME_HEADER_SIZE in
     bindE (readUint32 buffer offset) (\<lambda>ttl.
     let offset = offset + 4 in
     bindE (readUint32 buffer offset) (\<lambda>requestCount.
     let offset = offset + 4 in
     bindE (if offset < length buffer
            then bindE (decode (enc_metadata encoders) buffer offset (length buffer))
                   (\<lambda>m. Inr (Some m))
            else Inr None) (\<lambda>metadata.
     Inr (LeaseFrame flags metadata requestCount streamId ttl))))))"

definition serializeRequestFrame :: "frame \<Rightarrow> Encoders \<Rightarrow> error + ByteBuffer" where
  "serializeRequestFrame frame encoders =
     bindE (getPayloadLength frame encoders) (\<lambda>payloadLength.
     let buffer = allocate (FRAME_HEADER_SIZE + payloadLength);
         (buffer, offset) = writeHeader (streamId frame) (frame_type frame) (flags frame) buffer
     in writePayload frame buffer encoders offset)"

definition deserializeRequestFnfFrame ::
  "ByteBuffer \<Rightarrow> int \<Rightarrow> int \<Rightarrow> Encoders \<Rightarrow> error + frame" where
  "deserializeRequestFnfFrame = (\<lambda>buffer streamId flags encoders.
     invariant (streamId > 0) (
     let frame = RequestFnfFrame None flags None streamId
     in readPayload buffer frame encoders FRAME_HEADER_SIZE))"

definition deserializeRequestResponseFrame ::
  "ByteBuffer \<Rightarrow> int \<Rightarrow> int \<Rightarrow> Encoders \<Rightarrow> error + frame" where
  "deserializeRequestResponseFrame = (\<lambda>buffer streamId flags encoders.
     invariant (streamId > 0) (
     let frame = RequestResponseFrame None flags None streamId
     in readPayload buffer frame encoders FRAME_HEADER_SIZE))"

definition serializeRequestManyFrame :: "frame \<Rightarrow> Encoders \<Rightarrow> error + ByteBuffer" where
  "serializeRequestManyFrame frame encoders =
     bindE (getPayloadLength frame encoders) (\<lambda>payloadLength.
     let buffer = allocate (FRAME_HEADER_SIZE + REQUEST_MANY_HEADER + payloadLength);
         (buffer, offset) = writeHeader (streamId frame) (frame_type frame) (flags frame) buffer;
         buffer = writeUint32 (requestN frame) offset buffer;
         offset = offset + 4
     in writePayload frame buffer encoders offset)"

definition deserializeRequestStreamFrame ::
  "ByteBuffer \<Rightarrow> int \<Rightarrow> int \<Rightarrow> Encoders \<Rightarrow> error + frame" where
  "deserializeRequestStreamFrame = (\<lambda>buffer streamId flags encoders.
     invariant (streamId > 0) (
     let offset = FRAME_HEADER_SIZE in
     bindE (readInt32 buffer offset) (\<lambda>requestN.
     let offset = offset + 4 in
     invariant (requestN > 0) (
     let frame = RequestStreamFrame None flags None requestN streamId
     in readPayload buffer frame encoders offset))))"

definition deserializeRequestChannelFrame ::
  "ByteBuffer \<Rightarrow> int \<Rightarrow> int \<Rightarrow> Encoders \<Rightarrow> error + frame" where
  "deserializeRequestChannelFrame = (\<lambda>buffer streamId flags encoders.
     invariant (streamId > 0) (
     let offset = FRAME_HEADER_SIZE in
     bindE (readInt32 buffer offset) (\<lambda>requestN.
     let offset = offset + 4 in
     invariant (requestN > 0) (
     let frame = RequestChannelFrame None flags None requestN streamId
     in readPayload buffer frame encoders offset))))"

definition serializeRequestNFrame :: "frame \<Rightarrow> Encoders \<Rightarrow> error + ByteBuffer" where
  "serializeRequestNFrame frame encoders =
     (let buffer = allocate (FRAME_HEADER_SIZE + REQUEST_N_HEADER);
          (buffer, offset) = writeHeader (streamId frame) (frame_type frame) (flags frame) buffer;
          buffer = writeUint32 (requestN frame) offset buffer
      in Inr buffer)"

definition deserializeRequestNFrame ::
  "ByteBuffer \<Rightarrow> int \<Rightarrow> int \<Rightarrow> Encoders \<Rightarrow> error + frame" where
  "deserializeRequestNFrame = (\<lambda>buffer streamId flags encoders.
     invariant (streamId > 0) (
     bindE (readInt32 buffer FRAME_HEADER_SIZE) (\<lambda>requestN.
     invariant (requestN > 0) (
     Inr (RequestNFrame flags requestN streamId)))))"

definition serializeCancelFrame :: "frame \<Rightarrow> Encoders \<Rightarrow> error + ByteBuffer" where
  "serializeCancelFrame frame encoders =
     (let buffer = allocate FRAME_HEADER_SIZE;
          (buffer, offset) = writeHeader (streamId frame) (frame_type frame) (flags frame) buffer
      in Inr buffer)"

definition deserializeCancelFrame ::
  "ByteBuffer \<Rightarrow> int \<Rightarrow> int \<Rightarrow> Encoders \<Rightarrow> error + frame" where
  "deserializeCancelFrame = (\<lambda>buffer streamId flags encoders.
     invariant (streamId > 0) (
     Inr (CancelFrame flags streamId)))"

definition serializePayloadFrame :: "frame \<Rightarrow> Encoders \<Rightarrow> error + ByteBuffer" where
  "serializePayloadFrame frame encoders =
     bindE (getPayloadLength frame encoders) (\<lambda>payloadLength.
     let buffer = allocate (FRAME_HEADER_SIZE + payloadLength);
         (buffer, offset) = writeHeader (streamId frame) (frame_type frame) (flags frame) buffer
     in writePayload frame buffer encoders offset)"

definition deserializePayloadFrame ::
  "ByteBuffer \<Rightarrow> int \<Rightarrow> int \<Rightarrow> Encoders \<Rightarrow> error + frame" where
  "deserializePayloadFrame = (\<lambda>buffer streamId flags encoders.
     invariant (streamId > 0) (
     let frame = PayloadFrame None flags None streamId
     in readPayload buffer frame encoders FRAME_HEADER_SIZE))"

text \<open>The optional argument \<^verbatim>\<open>encoders\<close>: \<^verbatim>\<open>encoders || Utf8Encoders\<close>.\<close>

definition orUtf8 :: "Encoders option \<Rightarrow> Encoders" where
  "orUtf8 encoders = (case encoders of Some e \<Rightarrow> e | None \<Rightarrow> Utf8Encoders)"

definition deserializeFrame :: "ByteBuffer \<Rightarrow> Encoders option \<Rightarrow> error + frame" where
  "deserializeFrame buffer encoders =
     (let encoders = orUtf8 encoders;
          offset = 0
      in
      bindE (readInt32 buffer offset) (\<lambda>streamId.
      let offset = offset + 4 in
      invariant (streamId \<ge> 0) (
      bindE (readUint16 buffer offset) (\<lambda>typeAndFlags.
      let offset = offset + 2;
          type = js_ushr typeAndFlags FRAME_TYPE_OFFFSET;
          flags = js_and typeAndFlags FLAGS_MASK
      in
      if type = FRAME_TYPES_SETUP then deserializeSetupFrame buffer streamId flags encoders
      else if type = FRAME_TYPES_PAYLOAD then
        deserializePayloadFrame buffer streamId flags encoders
      else if type = FRAME_TYPES_ERROR then deserializeErrorFrame buffer streamId flags encoders
      else if type = FRAME_TYPES_KEEPALIVE then
        deserializeKeepAliveFrame buffer streamId flags encoders
      else if type = FRAME_TYPES_REQUEST_FNF then
        deserializeRequestFnfFrame buffer streamId flags encoders
      else if type = FRAME_TYPES_REQUEST_RESPONSE then
        deserializeRequestResponseFrame buffer streamId flags encoders
      else if type = FRAME_TYPES_REQUEST_STREAM then
        deserializeRequestStreamFrame buffer streamId flags encoders
      else if type = FRAME_TYPES_REQUEST_CHANNEL then
        deserializeRequestChannelFrame buffer streamId flags encoders
      else if type = FRAME_TYPES_REQUEST_N then
        deserializeRequestNFrame buffer streamId flags encoders
      else if type = FRAME_TYPES_CANCEL then deserializeCancelFrame buffer streamId flags encoders
      else if type = FRAME_TYPES_LEASE then deserializeLeaseFrame buffer streamId flags encoders
      else Inl InvariantViolation))))"

definition serializeFrame :: "frame \<Rightarrow> Encoders option \<Rightarrow> error + ByteBuffer" where
  "serializeFrame frame encoders =
     (let encoders = orUtf8 encoders;
          type = frame_type frame
      in
      if type = FRAME_TYPES_SETUP then serializeSetupFrame frame encoders
      else if type = FRAME_TYPES_PAYLOAD then serializePayloadFrame frame encoders
      else if type = FRAME_TYPES_ERROR then serializeErrorFrame frame encoders
      else if type = FRAME_TYPES_KEEPALIVE then serializeKeepAliveFrame frame encoders
      else if type = FRAME_TYPES_REQUEST_FNF \<or> type = FRAME_TYPES_REQUEST_RESPONSE then
        serializeRequestFrame frame encoders
      else if type = FRAME_TYPES_REQUEST_STREAM \<or> type = FRAME_TYPES_REQUEST_CHANNEL then
        serializeRequestManyFrame frame encoders
      else if type = FRAME_TYPES_REQUEST_N then serializeRequestNFrame frame encoders
      else if type = FRAME_TYPES_CANCEL then serializeCancelFrame frame encoders
      else if type = FRAME_TYPES_LEASE then serializeLeaseFrame frame encoders
      else Inl InvariantViolation)"

definition deserializeFrameWithLength :: "ByteBuffer \<Rightarrow> Encoders option \<Rightarrow> error + frame" where
  "deserializeFrameWithLength buffer encoders =
     bindE (readUint24 buffer 0) (\<lambda>frameLength.
     bindE (slice buffer UINT24_SIZE (UINT24_SIZE + nat frameLength)) (\<lambda>frameBuffer.
     deserializeFrame frameBuffer encoders))"

definition serializeFrameWithLength :: "frame \<Rightarrow> Encoders option \<Rightarrow> error + ByteBuffer" where
  "serializeFrameWithLength frame encoders =
     bindE (serializeFrame frame encoders) (\<lambda>buffer.
     let lengthPrefixed = allocate (length buffer + UINT24_SIZE);
         lengthPrefixed = writeUint24 lengthPrefixed (int (length buffer)) 0;
         lengthPrefixed = copyTo buffer lengthPrefixed UINT24_SIZE 0 (length buffer)
     in Inr lengthPrefixed)"

text \<open>
  The loop of \<^verbatim>\<open>deserializeFrames\<close>, with the frames read so far and the offset as its
  state; \<^verbatim>\<open>break\<close> and the end of the loop both return the frames and the rest of the buffer.
\<close>

function deserializeFrames_loop ::
  "ByteBuffer \<Rightarrow> Encoders option \<Rightarrow> frame list \<Rightarrow> nat \<Rightarrow> error + frame list \<times> ByteBuffer" where
  "deserializeFrames_loop buffer encoders frames offset =
     (if offset + UINT24_SIZE < length buffer then
        (case readUint24 buffer offset of
           Inl e \<Rightarrow> Inl e
         | Inr frameLength \<Rightarrow>
             if offset + UINT24_SIZE + nat frameLength > length buffer then
               bindE (slice buffer offset (length buffer)) (\<lambda>rest. Inr (frames, rest))
             else
               (case bindE (slice buffer (offset + UINT24_SIZE)
                              (offset + UINT24_SIZE + nat frameLength))
                       (\<lambda>frameBuffer. deserializeFrame frameBuffer encoders) of
                  Inl e \<Rightarrow> Inl e
                | Inr frame \<Rightarrow>
                    deserializeFrames_loop buffer encoders (frames @ [frame])
                      (offset + UINT24_SIZE + nat frameLength)))
      else bindE (slice buffer offset (length buffer)) (\<lambda>rest. Inr (frames, rest)))"
  by pat_completeness auto
termination
  by (relation "measure (\<lambda>(buffer, encoders, frames, offset). length buffer - offset)")
     (auto simp: UINT24_SIZE_def)

definition deserializeFrames ::
  "ByteBuffer \<Rightarrow> Encoders option \<Rightarrow> error + frame list \<times> ByteBuffer" where
  "deserializeFrames buffer encoders = deserializeFrames_loop buffer encoders [] 0"

subsection \<open>Values and encoders of the specification\<close>

text \<open>
  A string of the model stands for a JavaScript string when its code points are Unicode
  scalar values.
\<close>

definition scalar :: "nat \<Rightarrow> bool" where
  "scalar cp \<longleftrightarrow> cp < 1114112 \<and> \<not> (55296 \<le> cp \<and> cp \<le> 57343)"

definition wellformed :: "encodable \<Rightarrow> bool" where
  "wellformed v = (case v of Str s \<Rightarrow> list_all scalar s | Buf _ \<Rightarrow> True)"

text \<open>
  The bytes that an encoder writes for a value: the content of a buffer of \<^verbatim>\<open>byteLength\<close>
  bytes after \<^verbatim>\<open>encode\<close> at offset \<open>0\<close>; there are none when the encoder rejects the value.
\<close>

definition wire :: "Encoder \<Rightarrow> encodable \<Rightarrow> byte list option" where
  "wire e v =
     (case byteLength e v of
        Inl _ \<Rightarrow> None
      | Inr n \<Rightarrow> (case encode e v (allocate n) 0 of Inl _ \<Rightarrow> None | Inr (b, _) \<Rightarrow> Some b))"

text \<open>A value that the encoder accepts and whose encoded length satisfies \<open>P\<close>.\<close>

definition sized :: "Encoder \<Rightarrow> (nat \<Rightarrow> bool) \<Rightarrow> encodable \<Rightarrow> bool" where
  "sized e P v \<longleftrightarrow> wellformed v \<and> (case wire e v of Some bs \<Rightarrow> P (length bs) | None \<Rightarrow> False)"

text \<open>
  The encoder of section 3.3 of the specification: \<^verbatim>\<open>byteLength\<close> is the number of bytes
  that \<^verbatim>\<open>encode\<close> writes at its offset, a value is rejected by both or by none,
  \<^verbatim>\<open>decode\<close> reads the bytes from \<open>start\<close> up to \<open>end\<close> only, throws no invariant violation
  and gives back the value whose bytes it reads.
\<close>

definition lawful :: "Encoder \<Rightarrow> bool" where
  "lawful e \<longleftrightarrow>
     (\<forall>v. case wire e v of
        None \<Rightarrow> byteLength e v = Inl InvariantViolation
          \<and> (\<forall>buffer offset. encode e v buffer offset = Inl InvariantViolation)
      | Some bs \<Rightarrow> byteLength e v = Inr (length bs)
          \<and> (\<forall>buffer offset.
                encode e v buffer offset = Inr (put bs offset buffer, offset + length bs))
          \<and> (wellformed v \<longrightarrow> decode e bs 0 (length bs) = Inr v))
     \<and> (\<forall>buffer start end.
           decode e buffer start end
             = bindE (slice buffer start end) (\<lambda>b. decode e b 0 (length b)))
     \<and> (\<forall>buffer start end. decode e buffer start end \<noteq> Inl InvariantViolation)"

definition lawfulSet :: "Encoders \<Rightarrow> bool" where
  "lawfulSet E \<longleftrightarrow>
     lawful (enc_data E) \<and> lawful (enc_dataMimeType E) \<and> lawful (enc_message E)
     \<and> lawful (enc_metadata E) \<and> lawful (enc_metadataMimeType E)
     \<and> lawful (enc_resumeToken E)"

subsection \<open>The wire layout of the specification\<close>

text \<open>Big-endian fields of two, three, four and eight bytes.\<close>

definition be16 :: "int \<Rightarrow> byte list" where
  "be16 v = [word_of_int (v div 256), word_of_int v]"

definition be24 :: "int \<Rightarrow> byte list" where
  "be24 v = [word_of_int (v div 65536), word_of_int (v div 256), word_of_int v]"

definition be32 :: "int \<Rightarrow> byte list" where
  "be32 v = [word_of_int (v div 16777216), word_of_int (v div 65536), word_of_int (v div 256),
             word_of_int v]"

definition be64 :: "int \<Rightarrow> byte list" where
  "be64 v = [word_of_int (v div 72057594037927936), word_of_int (v div 281474976710656),
             word_of_int (v div 1099511627776), word_of_int (v div 4294967296),
             word_of_int (v div 16777216), word_of_int (v div 65536), word_of_int (v div 256),
             word_of_int v]"

text \<open>A buffer of \<open>n\<close> bytes while it is written: the bytes written so far, then zeros.\<close>

definition filled :: "byte list \<Rightarrow> nat \<Rightarrow> ByteBuffer" where
  "filled w n = w @ replicate (n - length w) 0"

text \<open>The bytes of an optional field: none when the field is absent.\<close>

definition wireOpt :: "Encoder \<Rightarrow> encodable option \<Rightarrow> byte list option" where
  "wireOpt e x = (case x of None \<Rightarrow> Some [] | Some v \<Rightarrow> wire e v)"

text \<open>
  Section 4.3: the header is the stream id in four bytes, then the type in the high six
  bits and the flags in the low ten bits of a 16-bit word.
\<close>

definition headerBytes :: "int \<Rightarrow> int \<Rightarrow> int \<Rightarrow> byte list" where
  "headerBytes sid t fl =
     be32 sid @ be16 (js_or (js_shl t FRAME_TYPE_OFFFSET) (js_and fl FLAGS_MASK))"

text \<open>
  Section 4.5: when the METADATA flag is set, a 24-bit length (\<open>0\<close> when the metadata is
  absent) and the metadata bytes, then the data bytes; when the flag is clear, the data
  bytes only.
\<close>

definition payloadSection ::
  "Encoders \<Rightarrow> int \<Rightarrow> encodable option \<Rightarrow> encodable option \<Rightarrow> byte list option" where
  "payloadSection E fl m d =
     Option.bind (wireOpt (enc_data E) d) (\<lambda>db.
     if isMetadata fl then
       Option.bind (wireOpt (enc_metadata E) m) (\<lambda>mb. Some (be24 (int (length mb)) @ mb @ db))
     else Some db)"

text \<open>
  Section 4.5: the size of the payload section, from the \<^verbatim>\<open>byteLength\<close> of the data and of
  the metadata; an absent field contributes \<open>0\<close>.
\<close>

definition fieldLength :: "Encoder \<Rightarrow> encodable option \<Rightarrow> nat" where
  "fieldLength e x =
     (case x of None \<Rightarrow> 0 | Some v \<Rightarrow> (case byteLength e v of Inr n \<Rightarrow> n | Inl _ \<Rightarrow> 0))"

definition payloadSize :: "Encoders \<Rightarrow> int \<Rightarrow> encodable option \<Rightarrow> encodable option \<Rightarrow> nat" where
  "payloadSize E fl m d =
     (if isMetadata fl then fieldLength (enc_data E) d + 3 + fieldLength (enc_metadata E) m
      else fieldLength (enc_data E) d)"

text \<open>Section 4.4: the layout of each kind of frame; none when an encoder rejects a field.\<close>

definition layout :: "Encoders \<Rightarrow> frame \<Rightarrow> byte list option" where
  "layout E f =
     (case f of
        SetupFrame d dm fl ka lt mj m mm mi rt sid \<Rightarrow>
          Option.bind (wireOpt (enc_resumeToken E) rt) (\<lambda>rtb.
          Option.bind (wireOpt (enc_metadataMimeType E) mm) (\<lambda>mmb.
          Option.bind (wireOpt (enc_dataMimeType E) dm) (\<lambda>dmb.
          Option.bind (payloadSection E fl m d) (\<lambda>pb.
          Some (headerBytes sid FRAME_TYPES_SETUP fl @ be16 mj @ be16 mi @ be32 ka @ be32 lt
                @ be16 (int (length rtb)) @ rtb @ [word_of_int (int (length mmb))] @ mmb
                @ [word_of_int (int (length dmb))] @ dmb @ pb)))))
      | ErrorFrame c fl msg sid \<Rightarrow>
          Option.bind (wireOpt (enc_message E) msg) (\<lambda>mb.
          Some (headerBytes sid FRAME_TYPES_ERROR fl @ be32 c @ mb))
      | KeepAliveFrame d fl p sid \<Rightarrow>
          Option.bind (wireOpt (enc_data E) d) (\<lambda>db.
          Some (headerBytes sid FRAME_TYPES_KEEPALIVE fl @ be64 (fromNumber p) @ db))
      | LeaseFrame fl m rc sid t \<Rightarrow>
          Option.bind (wireOpt (enc_metadata E) m) (\<lambda>mb.
          Some (headerBytes sid FRAME_TYPES_LEASE fl @ be32 t @ be32 rc @ mb))
      | RequestFnfFrame d fl m sid \<Rightarrow>
          Option.bind (payloadSection E fl m d) (\<lambda>pb.
          Some (headerBytes sid FRAME_TYPES_REQUEST_FNF fl @ pb))
      | RequestResponseFrame d fl m sid \<Rightarrow>
          Option.bind (payloadSection E fl m d) (\<lambda>pb.
          Some (headerBytes sid FRAME_TYPES_REQUEST_RESPONSE fl @ pb))
      | RequestStreamFrame d fl m n sid \<Rightarrow>
          Option.bind (payloadSection E fl m d) (\<lambda>pb.
          Some (headerBytes sid FRAME_TYPES_REQUEST_STREAM fl @ be32 n @ pb))
      | RequestChannelFrame d fl m n sid \<Rightarrow>
          Option.bind (payloadSection E fl m d) (\<lambda>pb.
          Some (headerBytes sid FRAME_TYPES_REQUEST_CHANNEL fl @ be32 n @ pb))
      | RequestNFrame fl n sid \<Rightarrow> Some (headerBytes sid FRAME_TYPES_REQUEST_N fl @ be32 n)
      | CancelFrame fl sid \<Rightarrow> Some (headerBytes sid FRAME_TYPES_CANCEL fl)
      | PayloadFrame d fl m sid \<Rightarrow>
          Option.bind (payloadSection E fl m d) (\<lambda>pb.
          Some (headerBytes sid FRAME_TYPES_PAYLOAD fl @ pb)))"

subsection \<open>Frames that the parser gives back\<close>

definition optional :: "Encoder \<Rightarrow> (nat \<Rightarrow> bool) \<Rightarrow> encodable option \<Rightarrow> bool" where
  "optional e P x = (case x of None \<Rightarrow> True | Some v \<Rightarrow> sized e P v)"

definition present :: "Encoder \<Rightarrow> (nat \<Rightarrow> bool) \<Rightarrow> encodable option \<Rightarrow> bool" where
  "present e P x = (case x of None \<Rightarrow> False | Some v \<Rightarrow> sized e P v)"

text \<open>
  The payload of a frame that the parser gives back: data and metadata are absent or have
  at least one byte, and the metadata are present only under the METADATA flag, in fewer
  than \<open>2 ^ 24\<close> bytes.
\<close>

definition canonicalPayload ::
  "Encoders \<Rightarrow> int \<Rightarrow> encodable option \<Rightarrow> encodable option \<Rightarrow> bool" where
  "canonicalPayload E fl m d \<longleftrightarrow>
     optional (enc_data E) (\<lambda>n. 0 < n) d
     \<and> (if isMetadata fl then optional (enc_metadata E) (\<lambda>n. 0 < n \<and> n < 16777216) m
        else m = None)"

text \<open>
  The frames that the parser gives back: the fields are within the bounds of section 3.1,
  the stream id is \<open>0\<close>, positive or any as the parser wants it for the kind of frame, the
  resume token, the MIME types and the message are present, the resume token has at most
  \<open>32767\<close> bytes and a MIME type at most \<open>255\<close>, a message of no bytes is the empty string,
  the position of a KEEPALIVE frame is a number that \<^verbatim>\<open>readUint64(..).toNumber()\<close> gives back
  (every integer below \<open>2 ^ 53\<close> is one), and the payload is canonical.
\<close>

definition canonical :: "Encoders \<Rightarrow> frame \<Rightarrow> bool" where
  "canonical E f \<longleftrightarrow>
     0 \<le> flags f \<and> flags f \<le> 1023 \<and> 0 \<le> streamId f \<and> streamId f \<le> 2147483647
     \<and> (case f of
          SetupFrame d dm fl ka lt mj m mm mi rt sid \<Rightarrow>
            sid = 0 \<and> 0 \<le> mj \<and> mj \<le> 65535 \<and> 0 \<le> mi \<and> mi \<le> 65535
            \<and> 0 \<le> ka \<and> ka \<le> MAX_KEEPALIVE \<and> 0 \<le> lt \<and> lt \<le> MAX_LIFETIME
            \<and> present (enc_resumeToken E) (\<lambda>n. n \<le> 32767) rt
            \<and> present (enc_metadataMimeType E) (\<lambda>n. n \<le> 255) mm
            \<and> present (enc_dataMimeType E) (\<lambda>n. n \<le> 255) dm
            \<and> canonicalPayload E fl m d
        | ErrorFrame c fl msg sid \<Rightarrow>
            0 \<le> c \<and> c \<le> MAX_CODE
            \<and> (present (enc_message E) (\<lambda>n. 0 < n) msg
               \<or> (msg = Some (Str []) \<and> wire (enc_message E) (Str []) = Some []))
        | KeepAliveFrame d fl p sid \<Rightarrow>
            sid = 0 \<and> 0 \<le> p \<and> toNumber (fromNumber p) = p
            \<and> optional (enc_data E) (\<lambda>n. 0 < n) d
        | LeaseFrame fl m rc sid t \<Rightarrow>
            sid = 0 \<and> 0 \<le> t \<and> t \<le> 4294967295 \<and> 0 \<le> rc \<and> rc \<le> 4294967295
            \<and> optional (enc_metadata E) (\<lambda>n. 0 < n) m
        | RequestFnfFrame d fl m sid \<Rightarrow> 0 < sid \<and> canonicalPayload E fl m d
        | RequestResponseFrame d fl m sid \<Rightarrow> 0 < sid \<and> canonicalPayload E fl m d
        | RequestStreamFrame d fl m n sid \<Rightarrow>
            0 < sid \<and> 0 < n \<and> n \<le> 2147483647 \<and> canonicalPayload E fl m d
        | RequestChannelFrame d fl m n sid \<Rightarrow>
            0 < sid \<and> 0 < n \<and> n \<le> 2147483647 \<and> canonicalPayload E fl m d
        | RequestNFrame fl n sid \<Rightarrow> 0 < sid \<and> 0 < n \<and> n \<le> 2147483647
        | CancelFrame fl sid \<Rightarrow> 0 < sid
        | PayloadFrame d fl m sid \<Rightarrow> 0 < sid \<and> canonicalPayload E fl m d)"

subsection \<open>Frames that the serializer accepts\<close>

text \<open>No encoder rejects a field of the frame: each field is absent or has bytes.\<close>

definition accepts :: "Encoder \<Rightarrow> encodable option \<Rightarrow> bool" where
  "accepts e x \<longleftrightarrow> (case wireOpt e x of Some _ \<Rightarrow> True | None \<Rightarrow> False)"

definition accepted :: "Encoders \<Rightarrow> frame \<Rightarrow> bool" where
  "accepted E f =
     (case f of
        SetupFrame d dm fl ka lt mj m mm mi rt sid \<Rightarrow>
          accepts (enc_data E) d \<and> accepts (enc_dataMimeType E) dm \<and> accepts (enc_metadata E) m
          \<and> accepts (enc_metadataMimeType E) mm \<and> accepts (enc_resumeToken E) rt
      | ErrorFrame c fl msg sid \<Rightarrow> accepts (enc_message E) msg
      | KeepAliveFrame d fl p sid \<Rightarrow> accepts (enc_data E) d
      | LeaseFrame fl m rc sid t \<Rightarrow> accepts (enc_metadata E) m
      | RequestFnfFrame d fl m sid \<Rightarrow> accepts (enc_data E) d \<and> accepts (enc_metadata E) m
      | RequestResponseFrame d fl m sid \<Rightarrow> accepts (enc_data E) d \<and> accepts (enc_metadata E) m
      | RequestStreamFrame d fl m n sid \<Rightarrow> accepts (enc_data E) d \<and> accepts (enc_metadata E) m
      | RequestChannelFrame d fl m n sid \<Rightarrow> accepts (enc_data E) d \<and> accepts (enc_metadata E) m
      | RequestNFrame fl n sid \<Rightarrow> True
      | CancelFrame fl sid \<Rightarrow> True
      | PayloadFrame d fl m sid \<Rightarrow> accepts (enc_data E) d \<and> accepts (enc_metadata E) m)"

subsection \<open>The stream of frames\<close>

text \<open>
  What \<^verbatim>\<open>deserializeFrames\<close> leaves in the buffer: at most three bytes, or a length prefix
  followed by fewer bytes than it declares.
\<close>

definition incomplete :: "ByteBuffer \<Rightarrow> bool" where
  "incomplete tail \<longleftrightarrow>
     length tail \<le> UINT24_SIZE
     \<or> (case readUint24 tail 0 of
           Inr frameLength \<Rightarrow> UINT24_SIZE + nat frameLength > length tail
         | Inl _ \<Rightarrow> False)"

text \<open>
  A frame that the parser gives back, with its length-prefixed serialization; the frame
  itself has fewer than \<open>2 ^ 24\<close> bytes, the most that the prefix can tell.
\<close>

definition framed :: "Encoders option \<Rightarrow> frame \<Rightarrow> ByteBuffer \<Rightarrow> bool" where
  "framed encoders f b \<longleftrightarrow>
     canonical (orUtf8 encoders) f \<and> serializeFrameWithLength f encoders = Inr b
     \<and> length b < 16777216 + UINT24_SIZE"

section \<open>Properties\<close>

subsection \<open>Errors, bit operators and buffers\<close>

lemma bindE_Inr [simp]: "bindE (Inr x) f = f x"
  by (simp add: bindE_def)

lemma bindE_Inl [simp]: "bindE (Inl e) f = Inl e"
  by (simp add: bindE_def)

lemma invariant_True [simp]: "invariant True k = k"
  by (simp add: invariant_def)

lemma invariant_False [simp]: "invariant False k = Inl InvariantViolation"
  by (simp add: invariant_def)


lemma js_ushr_eq: "js_ushr x n = (x mod 2 ^ 32) div 2 ^ n"
  unfolding js_ushr_def
  by (simp add: take_bit_eq_mod drop_bit_eq_div)

lemma ToInt32_id: "- 2147483648 \<le> x \<Longrightarrow> x < 2147483648 \<Longrightarrow> ToInt32 x = x"
  unfolding ToInt32_def by (simp add: signed_take_bit_int_eq_self)

lemma and_255: "(x::int) AND 255 = x mod 256"
proof -
  have "x AND 255 = x AND mask 8" by (simp add: mask_eq_exp_minus_1)
  also have "\<dots> = take_bit 8 x" by (simp only: take_bit_eq_mask)
  finally show ?thesis by (simp add: take_bit_eq_mod)
qed

lemma and_1023: "(x::int) AND 1023 = x mod 1024"
proof -
  have "x AND 1023 = x AND mask 10" by (simp add: mask_eq_exp_minus_1)
  also have "\<dots> = take_bit 10 x" by (simp only: take_bit_eq_mask)
  finally show ?thesis by (simp add: take_bit_eq_mod)
qed

lemma js_and_255: "js_and x 255 = x mod 256"
proof -
  have "0 \<le> x mod 256" "x mod 256 < 256" by simp_all
  then show ?thesis unfolding js_and_def and_255 by (intro ToInt32_id) linarith+
qed

lemma js_and_1023: "js_and x 1023 = x mod 1024"
proof -
  have "0 \<le> x mod 1024" "x mod 1024 < 1024" by simp_all
  then show ?thesis unfolding js_and_def and_1023 by (intro ToInt32_id) linarith+
qed

lemma or_shift: "0 \<le> y \<Longrightarrow> y < 2 ^ k \<Longrightarrow> push_bit k (x::int) OR y = x * 2 ^ k + y"
proof -
  assume a: "0 \<le> y" "y < 2 ^ k"
  then have t: "take_bit k y = y" by (simp add: take_bit_int_eq_self)
  have "push_bit k x OR y = concat_bit k y x" by (simp add: concat_bit_def or.commute t)
  also have "\<dots> = take_bit k y + push_bit k x" by (rule concat_bit_eq)
  finally show ?thesis by (simp add: push_bit_eq_mult t)
qed

lemma js_shl_small: assumes "0 \<le> x" "x * 2 ^ n < 2147483648" shows "js_shl x n = x * 2 ^ n"
proof -
  have "0 \<le> x * 2 ^ n" using assms by simp
  then have "ToInt32 (x * 2 ^ n) = x * 2 ^ n" using assms by (intro ToInt32_id) linarith+
  then show ?thesis unfolding js_shl_def by (simp add: push_bit_eq_mult)
qed

lemma js_or_shift:
  assumes "0 \<le> x" "x * 2 ^ k + y < 2147483648" "0 \<le> y" "y < 2 ^ k"
  shows "js_or (x * 2 ^ k) y = x * 2 ^ k + y"
proof -
  have "0 \<le> x * 2 ^ k" using assms by simp
  then have "0 \<le> x * 2 ^ k + y" using assms by linarith
  then have "ToInt32 (x * 2 ^ k + y) = x * 2 ^ k + y" using assms by (intro ToInt32_id) linarith+
  then show ?thesis unfolding js_or_def using or_shift [of y k x] assms by (simp add: push_bit_eq_mult)
qed

lemma uint24_join:
  assumes "0 \<le> a" "a < 256" "0 \<le> b" "b < 256" "0 \<le> c" "c < 256"
  shows "js_or (js_or (js_shl a 16) (js_shl b 8)) c = a * 65536 + b * 256 + c"
proof -
  have 1: "js_shl a 16 = a * 65536" using assms js_shl_small [of a 16] by simp
  have 2: "js_shl b 8 = b * 256" using assms js_shl_small [of b 8] by simp
  have 3: "js_or (a * 65536) (b * 256) = a * 65536 + b * 256"
    using assms js_or_shift [of a 16 "b * 256"] by simp
  have 4: "js_or ((a * 256 + b) * 256) c = (a * 256 + b) * 256 + c"
    using assms js_or_shift [of "a * 256 + b" 8 c] by simp
  have 5: "(a * 256 + b) * 256 = a * 65536 + b * 256" by simp
  show ?thesis using 4 unfolding 1 2 3 5 .
qed

lemma uint8_of_int: "uint (word_of_int v :: 8 word) = v mod 256"
  by (simp add: uint_word_of_int_eq take_bit_eq_mod)

lemma word8_of_int_eq_iff: "((word_of_int a :: 8 word) = word_of_int b) = (a mod 256 = b mod 256)"
  by (simp add: word_of_int_eq_iff take_bit_eq_mod)


lemma put0: "put bs 0 buffer = bs @ drop (length bs) buffer"
  by (simp add: put_def)

lemma length_put: "length (put bs off buf) = max (length buf) (off + length bs)"
  by (auto simp: put_def)

lemma put_put: "put (as @ bs) off buf = put bs (off + length as) (put as off buf)"
  by (auto simp: put_def min_def max_def ac_simps)

lemma take_put_self: "take (length bs) (drop off (put bs off buf)) = bs"
  by (simp add: put_def)

lemma rd_put: "rd (length bs) (put bs off buf) off = Inr (be_val bs)"
  by (simp add: rd_def length_put take_put_self)


lemma w8_ushr: "m + 8 \<le> 32 \<Longrightarrow> (word_of_int (js_ushr v m) :: byte) = word_of_int (v div 2 ^ m)"
  by (simp add: word_of_int_eq_iff js_ushr_def drop_bit_take_bit flip: drop_bit_eq_div)

lemma w8_drop_take: "m + 8 \<le> k \<Longrightarrow> (word_of_int (drop_bit m (take_bit k v)) :: byte) = word_of_int (drop_bit m v)"
  by (simp add: word_of_int_eq_iff drop_bit_take_bit)

lemma w8_and_255: "(word_of_int (js_and v 255) :: byte) = word_of_int v"
  by (simp add: js_and_255 word8_of_int_eq_iff)

lemma put3: "put [x, y, z] offset buffer = put [z] (offset + 2) (put [y] (offset + 1) (put [x] offset buffer))"
  using put_put [of "[x]" "[y, z]" offset buffer] put_put [of "[y]" "[z]" "offset + 1" "put [x] offset buffer"]
  by (simp add: numeral_2_eq_2)

lemma writeUint24_bytes:
  "writeUint24 buffer v offset = put [word_of_int (v div 65536), word_of_int (v div 256), word_of_int v] offset buffer"
proof -
  have a: "(word_of_int (js_ushr v 16) :: byte) = word_of_int (v div 65536)"
    using w8_ushr [of 16 v] by simp
  have b: "(word_of_int (js_ushr v 8) :: byte) = word_of_int (v div 256)"
    using w8_ushr [of 8 v] by simp
  show ?thesis
    unfolding writeUint24_def writeUint8_def Let_def w8_and_255 a b put3 ..
qed

lemma uint8_bounds [simp]: "0 \<le> uint (b::byte)" "uint (b::byte) < 256"
  using uint_bounded [of b] by simp_all

lemma rd1: "off < length buf \<Longrightarrow> rd 1 buf off = Inr (uint (buf ! off))"
  by (simp add: rd_def be_val_def take_Suc_conv_app_nth [of 0] hd_drop_conv_nth Suc_le_eq take_Suc)

lemma readUint24_bytes:
  "length pre = off \<Longrightarrow> readUint24 (pre @ [a, b, c] @ suf) off = Inr (uint a * 65536 + uint b * 256 + uint c)"
  by (simp add: readUint24_def readUint8_def rd_def be_val_def uint24_join nth_append)

lemma be3_split: "(n div 65536) mod 256 * 65536 + (n div 256) mod 256 * 256 + n mod 256 = (n::int) mod 16777216"
  using zmod_zmult2_eq [of 256 n 256] zmod_zmult2_eq [of 256 n 65536] by simp

lemma and_mask24: "(x::int) AND 16777215 = x mod 16777216"
proof -
  have "x AND 16777215 = x AND mask 24" by (simp add: mask_eq_exp_minus_1)
  also have "\<dots> = take_bit 24 x" by (simp only: take_bit_eq_mask)
  finally show ?thesis by (simp add: take_bit_eq_mod)
qed

lemma js_and_mask24: "js_and x 16777215 = x mod 16777216"
proof -
  have "0 \<le> x mod 16777216" "x mod 16777216 < 16777216" by simp_all
  then show ?thesis unfolding js_and_def and_mask24 by (intro ToInt32_id) linarith+
qed

text \<open>
  C7: for every \<open>n\<close> from \<open>0\<close> up to \<open>2 ^ 24 - 1\<close>, \<^verbatim>\<open>writeUint24\<close> at offset \<open>0\<close> followed by
  \<^verbatim>\<open>readUint24\<close> at offset \<open>0\<close> gives \<open>n\<close> back; the three bytes written are big-endian, the
  bytes after them are left as they were, and any other value is written as
  \<^verbatim>\<open>value & 0xFFFFFF\<close> would be.
\<close>

theorem uint24_roundtrip:
  "(0 \<le> n \<and> n < 2 ^ 24 \<longrightarrow>
      readUint24 (writeUint24 buffer n 0) 0 = Inr n
      \<and> map uint (take 3 (writeUint24 buffer n 0)) = [n div 65536, n div 256 mod 256, n mod 256])
   \<and> drop 3 (writeUint24 buffer n 0) = drop 3 buffer
   \<and> writeUint24 buffer v offset = writeUint24 buffer (js_and v 16777215) offset"
proof (intro conjI impI)
  assume r: "0 \<le> n \<and> n < 2 ^ 24"
  have w: "writeUint24 buffer n 0 = [] @ [word_of_int (n div 65536), word_of_int (n div 256), word_of_int n] @ drop 3 buffer"
    by (simp add: writeUint24_bytes put0 numeral_3_eq_3)
  show "readUint24 (writeUint24 buffer n 0) 0 = Inr n"
    unfolding w using r by (subst readUint24_bytes) (simp_all add: uint8_of_int be3_split)
  have r': "0 \<le> n" "n < 16777216" using r by simp_all
  have "0 \<le> n div 65536" "n div 65536 < 256"
    using r' div_mult_mod_eq [of n 65536] pos_mod_bound [of 65536 n] pos_mod_sign [of 65536 n]
    by linarith+
  then show "map uint (take 3 (writeUint24 buffer n 0)) = [n div 65536, n div 256 mod 256, n mod 256]"
    by (simp add: writeUint24_bytes put0 uint8_of_int)
next
  show "drop 3 (writeUint24 buffer n 0) = drop 3 buffer"
    by (simp add: writeUint24_bytes put0 numeral_3_eq_3)
  have "(word_of_int (v mod 16777216 div 65536) :: byte) = word_of_int (v div 65536)"
    "(word_of_int (v mod 16777216 div 256) :: byte) = word_of_int (v div 256)"
    "(word_of_int (v mod 16777216) :: byte) = word_of_int v"
    using w8_drop_take [of 16 24 v] w8_drop_take [of 8 24 v] w8_drop_take [of 0 24 v]
    by (simp_all add: take_bit_eq_mod drop_bit_eq_div)
  then show "writeUint24 buffer v offset = writeUint24 buffer (js_and v 16777215) offset"
    by (simp add: writeUint24_bytes js_and_mask24)
qed

theorem uint24_roundtrip_witness:
  "(0::int) \<le> 1193046 \<and> (1193046::int) < 2 ^ 24
   \<and> readUint24 (writeUint24 [9, 9, 9, 9] 1193046 0) 0 = Inr 1193046
   \<and> map uint (take 3 (writeUint24 [9, 9, 9, 9] 1193046 0)) = [18, 52, 86]
   \<and> drop 3 (writeUint24 [9, 9, 9, 9] 1193046 0) = [9]
   \<and> writeUint24 [9, 9, 9, 9] 33554431 1 = writeUint24 [9, 9, 9, 9] (js_and 33554431 16777215) 1"
  using uint24_roundtrip [of 1193046 "[9, 9, 9, 9]" 33554431 1] by simp

subsection \<open>The frame header\<close>

lemma be2_split: "(n div 256) mod 256 * 256 + n mod 256 = (n::int) mod 65536"
  using zmod_zmult2_eq [of 256 n 256] by simp

lemma be4_split:
  "(n div 16777216) mod 256 * 16777216 + (n div 65536) mod 256 * 65536 + (n div 256) mod 256 * 256 + n mod 256
     = (n::int) mod 4294967296"
  using zmod_zmult2_eq [of 256 n 256] zmod_zmult2_eq [of 256 n 65536] zmod_zmult2_eq [of 256 n 16777216] by simp


lemma be_val2: "be_val [a, b] = uint a * 256 + uint b"
  by (simp add: be_val_def)

lemma be_val4: "be_val [a, b, c, d] = uint a * 16777216 + uint b * 65536 + uint c * 256 + uint d"
  by (simp add: be_val_def)

lemma pack_type_flags:
  assumes "0 \<le> t" "t \<le> 63" "0 \<le> f" "f \<le> 1023"
  shows "js_or (js_shl t FRAME_TYPE_OFFFSET) (js_and f FLAGS_MASK) = t * 1024 + f"
proof -
  have 1: "js_shl t 10 = t * 1024" using assms js_shl_small [of t 10] by simp
  have 2: "js_and f 1023 = f" using assms by (simp add: js_and_1023)
  show ?thesis
    unfolding FRAME_TYPE_OFFFSET_def FLAGS_MASK_def 1 2
    using assms js_or_shift [of t 10 f] by simp
qed

lemma put_after: "length as = off \<Longrightarrow> put bs off (as @ rest) = as @ put bs 0 rest"
  by (simp add: put_def)

lemma writeUint8_app:
  "length pre = off \<Longrightarrow> writeUint8 v off (pre @ rest) = pre @ [word_of_int v] @ drop 1 rest"
  unfolding writeUint8_def by (subst put_after) (simp_all add: put0)

lemma writeUint16_app:
  "length pre = off \<Longrightarrow>
     writeUint16 v off (pre @ rest) = pre @ [word_of_int (v div 256), word_of_int v] @ drop 2 rest"
  unfolding writeUint16_def by (subst put_after) (simp_all add: put0 eval_nat_numeral)

lemma writeUint32_app:
  "length pre = off \<Longrightarrow>
     writeUint32 v off (pre @ rest) =
       pre @ [word_of_int (v div 16777216), word_of_int (v div 65536), word_of_int (v div 256),
              word_of_int v] @ drop 4 rest"
  unfolding writeUint32_def by (subst put_after) (simp_all add: put0 eval_nat_numeral)

lemma writeUint24_app:
  "length pre = off \<Longrightarrow>
     writeUint24 (pre @ rest) v off =
       pre @ [word_of_int (v div 65536), word_of_int (v div 256), word_of_int v] @ drop 3 rest"
  unfolding writeUint24_bytes by (subst put_after) (simp_all add: put0 eval_nat_numeral)

lemma writeHeader_bytes:
  "writeHeader sid t f buffer =
     ([word_of_int (sid div 16777216), word_of_int (sid div 65536), word_of_int (sid div 256), word_of_int sid]
      @ [word_of_int (js_or (js_shl t FRAME_TYPE_OFFFSET) (js_and f FLAGS_MASK) div 256),
         word_of_int (js_or (js_shl t FRAME_TYPE_OFFFSET) (js_and f FLAGS_MASK))] @ drop 6 buffer, 6)"
proof -
  let ?A = "[word_of_int (sid div 16777216), word_of_int (sid div 65536), word_of_int (sid div 256), word_of_int sid] :: byte list"
  have 1: "writeInt32 sid 0 buffer = ?A @ drop 4 buffer"
    using writeUint32_app [of "[]" 0 sid buffer] by (simp add: writeInt32_def)
  have 2: "writeUint16 w 4 (?A @ drop 4 buffer) = ?A @ [word_of_int (w div 256), word_of_int w] @ drop 6 buffer" for w
    by (subst writeUint16_app) simp_all
  show ?thesis
    unfolding writeHeader_def Let_def 1 2 FRAME_HEADER_SIZE_def by simp
qed

subsection \<open>UTF-8 and the encoders\<close>

lemma length_encodeUTF8char: "length (encodeUTF8char cp) = calculateCodePoint cp"
  by (simp add: encodeUTF8char_def calculateCodePoint_def)

lemma length_encodeUTF8: "length (encodeUTF8 s) = calculateUTF8Bytes s"
  by (induction s) (simp_all add: encodeUTF8_def calculateUTF8Bytes_def length_encodeUTF8char)

lemma unat_byte_of_nat: "x < 256 \<Longrightarrow> unat (of_nat x :: byte) = x"
  by (simp add: unat_of_nat)

lemma consE_Inr [simp]: "consE x (Inr r) = Inr (x # r)"
  by (simp add: consE_def)

lemma decode_char1: "cp < 128 \<Longrightarrow> decodeUTF8 (encodeUTF8char cp @ r) = consE cp (decodeUTF8 r)"
  by (simp add: encodeUTF8char_def unat_byte_of_nat)

lemma decode_char2:
  assumes "128 \<le> cp" "cp < 2048"
  shows "decodeUTF8 (encodeUTF8char cp @ r) = consE cp (decodeUTF8 r)"
proof -
  define h where "h = cp div 64"
  define l where "l = cp mod 64"
  have cp: "cp = h * 64 + l" and l: "l < 64" by (simp_all add: h_def l_def)
  have h: "h < 32" using assms cp by linarith
  have e: "encodeUTF8char cp = [of_nat (192 + h), of_nat (128 + l)]"
    using assms h by (simp add: encodeUTF8char_def h_def l_def)
  have u: "unat (192 + of_nat h :: byte) = 192 + h" "unat (128 + of_nat l :: byte) = 128 + l"
    using h l unat_byte_of_nat [of "192 + h"] unat_byte_of_nat [of "128 + l"] by simp_all
  have m: "(192 + h) mod 32 = h" "(128 + l) mod 64 = l"
    using h l mod_mult_self3 [of 6 32 h] mod_mult_self3 [of 2 64 l] by simp_all
  show ?thesis unfolding e using h l by (simp add: u m cp)
qed

lemma decode_char3:
  assumes "2048 \<le> cp" "cp < 65536"
  shows "decodeUTF8 (encodeUTF8char cp @ r) = consE cp (decodeUTF8 r)"
proof -
  define q where "q = cp div 64"
  define c where "c = cp mod 64"
  define a where "a = q div 64"
  define b where "b = q mod 64"
  have cp: "cp = q * 64 + c" and c: "c < 64" by (simp_all add: q_def c_def)
  have q: "q = a * 64 + b" and b: "b < 64" by (simp_all add: a_def b_def)
  have a: "a < 16" using assms cp q by linarith
  have a': "cp div 4096 = a" unfolding a_def q_def by (simp add: div_mult2_eq [symmetric])
  have e: "encodeUTF8char cp = [of_nat (224 + a), of_nat (128 + b), of_nat (128 + c)]"
    using assms a by (simp add: encodeUTF8char_def a' b_def [unfolded q_def] c_def)
  have u: "unat (224 + of_nat a :: byte) = 224 + a" "unat (128 + of_nat b :: byte) = 128 + b"
    "unat (128 + of_nat c :: byte) = 128 + c"
    using a b c unat_byte_of_nat [of "224 + a"] unat_byte_of_nat [of "128 + b"]
      unat_byte_of_nat [of "128 + c"] by simp_all
  have m: "(224 + a) mod 16 = a" "(128 + b) mod 64 = b" "(128 + c) mod 64 = c"
    using a b c mod_mult_self3 [of 14 16 a] mod_mult_self3 [of 2 64 b] mod_mult_self3 [of 2 64 c]
    by simp_all
  show ?thesis unfolding e using a b c by (simp add: u m cp q mult.commute)
qed

lemma decode_char4:
  assumes "65536 \<le> cp" "cp < 2097152"
  shows "decodeUTF8 (encodeUTF8char cp @ r) = consE cp (decodeUTF8 r)"
proof -
  define q where "q = cp div 64"
  define d where "d = cp mod 64"
  define p where "p = q div 64"
  define c where "c = q mod 64"
  define a where "a = p div 64"
  define b where "b = p mod 64"
  have cp: "cp = q * 64 + d" and d: "d < 64" by (simp_all add: q_def d_def)
  have q: "q = p * 64 + c" and c: "c < 64" by (simp_all add: p_def c_def)
  have p: "p = a * 64 + b" and b: "b < 64" by (simp_all add: a_def b_def)
  have a: "a < 8" using assms cp q p by linarith
  have p': "cp div 4096 = p" unfolding p_def q_def by (simp add: div_mult2_eq [symmetric])
  have a': "cp div 262144 = a" unfolding a_def p' [symmetric] by (simp add: div_mult2_eq [symmetric])
  have e: "encodeUTF8char cp = [of_nat (240 + a), of_nat (128 + b), of_nat (128 + c), of_nat (128 + d)]"
    using assms a by (simp add: encodeUTF8char_def a' p' b_def c_def [unfolded q_def] d_def)
  have u: "unat (240 + of_nat a :: byte) = 240 + a" "unat (128 + of_nat b :: byte) = 128 + b"
    "unat (128 + of_nat c :: byte) = 128 + c" "unat (128 + of_nat d :: byte) = 128 + d"
    using a b c d unat_byte_of_nat [of "240 + a"] unat_byte_of_nat [of "128 + b"]
      unat_byte_of_nat [of "128 + c"] unat_byte_of_nat [of "128 + d"] by simp_all
  have m: "(240 + a) mod 8 = a" "(128 + b) mod 64 = b" "(128 + c) mod 64 = c" "(128 + d) mod 64 = d"
    using a b c d mod_mult_self3 [of 30 8 a] mod_mult_self3 [of 2 64 b]
      mod_mult_self3 [of 2 64 c] mod_mult_self3 [of 2 64 d]
    by simp_all
  show ?thesis unfolding e using a b c d by (simp add: u m cp q p mult.commute)
qed

lemma decode_char:
  "cp < 2097152 \<Longrightarrow> decodeUTF8 (encodeUTF8char cp @ r) = consE cp (decodeUTF8 r)"
  using decode_char1 [of cp r] decode_char2 [of cp r] decode_char3 [of cp r] decode_char4 [of cp r]
  by (cases "cp < 128"; cases "cp < 2048"; cases "cp < 65536") simp_all

lemma decodeUTF8_encodeUTF8:
  "list_all (\<lambda>cp. cp < 2097152) s \<Longrightarrow> decodeUTF8 (encodeUTF8 s) = Inr s"
proof (induction s)
  case Nil
  then show ?case by (simp add: encodeUTF8_def)
next
  case (Cons cp s)
  have "encodeUTF8 (cp # s) = encodeUTF8char cp @ encodeUTF8 s" by (simp add: encodeUTF8_def)
  then show ?case using Cons by (simp add: decode_char)
qed

lemma slice_mid: "length pre = s \<Longrightarrow> t = s + length bs \<Longrightarrow> slice (pre @ bs @ suf) s t = Inr bs"
  by (simp add: slice_def)

lemma slice_whole: "slice bs 0 (length bs) = Inr bs"
  by (simp add: slice_def)

lemma slice_slice:
  "bindE (slice buffer s t) (\<lambda>b. bindE (slice b 0 (length b)) f) = bindE (slice buffer s t) f"
  by (cases "slice buffer s t") (simp_all add: slice_whole)

lemma put_allocate: "put bs 0 (allocate (length bs)) = bs"
  by (simp add: put_def allocate_def)

lemma wire_UTF8Encoder:
  "wire UTF8Encoder v = (case v of Str s \<Rightarrow> Some (encodeUTF8 s) | Buf _ \<Rightarrow> None)"
  by (simp add: wire_def UTF8Encoder_def writeUTF8String_def length_encodeUTF8 [symmetric]
      put_allocate split: encodable.split)

lemma wire_BufferEncoder:
  "wire BufferEncoder v = (case v of Buf b \<Rightarrow> Some b | Str _ \<Rightarrow> None)"
  by (simp add: wire_def BufferEncoder_def copyTo_def put_allocate split: encodable.split)

lemma scalar_less: "list_all scalar s \<Longrightarrow> list_all (\<lambda>cp. cp < 2097152) s"
  by (induction s) (auto simp: scalar_def)

lemma consE_not_invariant:
  "m \<noteq> Inl InvariantViolation \<Longrightarrow> consE x m \<noteq> Inl InvariantViolation"
  by (cases m) (simp_all add: consE_def)

lemma decodeUTF8_not_invariant: "decodeUTF8 bs \<noteq> Inl InvariantViolation"
proof (induction bs rule: length_induct)
  case (1 bs)
  show ?case
  proof (cases bs)
    case Nil
    then show ?thesis by simp
  next
    case (Cons a r)
    have ih: "decodeUTF8 ys \<noteq> Inl InvariantViolation" if "length ys < length bs" for ys
      using 1 that by blast
    show ?thesis
      unfolding Cons decodeUTF8.simps
      by (auto simp del: decodeUTF8.simps simp add: Cons intro!: consE_not_invariant ih
          split: list.splits)
  qed
qed

lemma bindE_not_invariant:
  "m \<noteq> Inl InvariantViolation \<Longrightarrow> (\<And>x. f x \<noteq> Inl InvariantViolation)
     \<Longrightarrow> bindE m f \<noteq> Inl InvariantViolation"
  by (cases m) simp_all

lemma slice_not_invariant: "slice buffer s t \<noteq> Inl InvariantViolation"
  by (simp add: slice_def)

lemma decode_UTF8Encoder_not_invariant:
  "decode UTF8Encoder buffer s t \<noteq> Inl InvariantViolation"
  by (simp add: UTF8Encoder_def toUTF8_def bindE_not_invariant slice_not_invariant
      decodeUTF8_not_invariant)

lemma decode_BufferEncoder_not_invariant:
  "decode BufferEncoder buffer s t \<noteq> Inl InvariantViolation"
  by (simp add: BufferEncoder_def bindE_not_invariant slice_not_invariant)

lemma lawful_UTF8Encoder: "lawful UTF8Encoder"
  unfolding lawful_def
proof (intro conjI allI)
  fix v
  show "case wire UTF8Encoder v of
        None \<Rightarrow> byteLength UTF8Encoder v = Inl InvariantViolation
          \<and> (\<forall>buffer offset. encode UTF8Encoder v buffer offset = Inl InvariantViolation)
      | Some bs \<Rightarrow> byteLength UTF8Encoder v = Inr (length bs)
          \<and> (\<forall>buffer offset.
                encode UTF8Encoder v buffer offset = Inr (put bs offset buffer, offset + length bs))
          \<and> (wellformed v \<longrightarrow> decode UTF8Encoder bs 0 (length bs) = Inr v)"
  proof (cases v)
    case (Str s)
    have "wellformed v \<Longrightarrow> decodeUTF8 (encodeUTF8 s) = Inr s"
      using Str by (simp add: wellformed_def scalar_less decodeUTF8_encodeUTF8)
    then show ?thesis
      unfolding Str wire_UTF8Encoder
      by (simp add: UTF8Encoder_def writeUTF8String_def length_encodeUTF8 [symmetric] slice_whole
          toUTF8_def)
  next
    case (Buf b)
    show ?thesis unfolding Buf wire_UTF8Encoder by (simp add: UTF8Encoder_def)
  qed
next
  fix buffer start "end"
  show "decode UTF8Encoder buffer start end
          = bindE (slice buffer start end) (\<lambda>b. decode UTF8Encoder b 0 (length b))"
    by (simp add: UTF8Encoder_def slice_slice)
  show "decode UTF8Encoder buffer start end \<noteq> Inl InvariantViolation"
    by (rule decode_UTF8Encoder_not_invariant)
qed

lemma lawful_BufferEncoder: "lawful BufferEncoder"
  unfolding lawful_def
proof (intro conjI allI)
  fix v
  show "case wire BufferEncoder v of
        None \<Rightarrow> byteLength BufferEncoder v = Inl InvariantViolation
          \<and> (\<forall>buffer offset. encode BufferEncoder v buffer offset = Inl InvariantViolation)
      | Some bs \<Rightarrow> byteLength BufferEncoder v = Inr (length bs)
          \<and> (\<forall>buffer offset.
                encode BufferEncoder v buffer offset = Inr (put bs offset buffer, offset + length bs))
          \<and> (wellformed v \<longrightarrow> decode BufferEncoder bs 0 (length bs) = Inr v)"
  proof (cases v)
    case (Str s)
    show ?thesis unfolding Str wire_BufferEncoder by (simp add: BufferEncoder_def)
  next
    case (Buf b)
    show ?thesis unfolding Buf wire_BufferEncoder
      by (simp add: BufferEncoder_def copyTo_def slice_whole)
  qed
next
  fix buffer start "end"
  show "decode BufferEncoder buffer start end
          = bindE (slice buffer start end) (\<lambda>b. decode BufferEncoder b 0 (length b))"
    by (simp add: BufferEncoder_def slice_slice)
  show "decode BufferEncoder buffer start end \<noteq> Inl InvariantViolation"
    by (rule decode_BufferEncoder_not_invariant)
qed

lemma lawfulSet_Utf8Encoders: "lawfulSet Utf8Encoders"
  by (simp add: lawfulSet_def Utf8Encoders_def lawful_UTF8Encoder)

lemma lawfulSet_BufferEncoders: "lawfulSet BufferEncoders"
  by (simp add: lawfulSet_def BufferEncoders_def lawful_UTF8Encoder lawful_BufferEncoder)

lemma lawful_wire:
  assumes "lawful e"
  shows "case wire e v of
        None \<Rightarrow> byteLength e v = Inl InvariantViolation
          \<and> (\<forall>buffer offset. encode e v buffer offset = Inl InvariantViolation)
      | Some bs \<Rightarrow> byteLength e v = Inr (length bs)
          \<and> (\<forall>buffer offset.
                encode e v buffer offset = Inr (put bs offset buffer, offset + length bs))
          \<and> (wellformed v \<longrightarrow> decode e bs 0 (length bs) = Inr v)"
proof -
  from assms have "\<forall>v. case wire e v of
        None \<Rightarrow> byteLength e v = Inl InvariantViolation
          \<and> (\<forall>buffer offset. encode e v buffer offset = Inl InvariantViolation)
      | Some bs \<Rightarrow> byteLength e v = Inr (length bs)
          \<and> (\<forall>buffer offset.
                encode e v buffer offset = Inr (put bs offset buffer, offset + length bs))
          \<and> (wellformed v \<longrightarrow> decode e bs 0 (length bs) = Inr v)"
    unfolding lawful_def by (rule conjunct1)
  then show ?thesis by (rule spec)
qed

lemma lawful_byteLength_Some:
  "lawful e \<Longrightarrow> wire e v = Some bs \<Longrightarrow> byteLength e v = Inr (length bs)"
  using lawful_wire [of e v] by simp

lemma lawful_encode_Some:
  "lawful e \<Longrightarrow> wire e v = Some bs \<Longrightarrow>
     encode e v buffer offset = Inr (put bs offset buffer, offset + length bs)"
  using lawful_wire [of e v] by simp

lemma lawful_byteLength_None:
  "lawful e \<Longrightarrow> wire e v = None \<Longrightarrow> byteLength e v = Inl InvariantViolation"
  using lawful_wire [of e v] by simp

lemma lawful_decode_wire:
  "lawful e \<Longrightarrow> wire e v = Some bs \<Longrightarrow> wellformed v \<Longrightarrow> decode e bs 0 (length bs) = Inr v"
  using lawful_wire [of e v] by simp

lemma lawful_decode_slice:
  assumes "lawful e"
  shows "decode e buffer s t = bindE (slice buffer s t) (\<lambda>b. decode e b 0 (length b))"
proof -
  from assms have "\<forall>buffer start end. decode e buffer start end
      = bindE (slice buffer start end) (\<lambda>b. decode e b 0 (length b))"
    unfolding lawful_def by (elim conjE)
  then show ?thesis by blast
qed

lemma lawful_decode_not_invariant:
  assumes "lawful e"
  shows "decode e buffer s t \<noteq> Inl InvariantViolation"
proof -
  from assms have "\<forall>buffer start end. decode e buffer start end \<noteq> Inl InvariantViolation"
    unfolding lawful_def by (elim conjE)
  then show ?thesis by blast
qed

lemma lawful_byteLength:
  assumes "lawful e" and "byteLength e v = Inr n"
  shows "\<exists>bs. wire e v = Some bs \<and> length bs = n
       \<and> (\<forall>buffer offset. encode e v buffer offset = Inr (put bs offset buffer, offset + n))"
proof (cases "wire e v")
  case None
  then show ?thesis using lawful_byteLength_None [OF assms(1)] assms(2) by simp
next
  case (Some bs)
  then show ?thesis
    using lawful_byteLength_Some [OF assms(1) Some] lawful_encode_Some [OF assms(1) Some] assms(2)
    by simp
qed

text \<open>
  C9: for each of the two standard encoders, the UTF-8 encoder and the buffer encoder, and
  every value that the encoder accepts, \<^verbatim>\<open>encode\<close> writes \<^verbatim>\<open>byteLength\<close> bytes at its offset
  and returns the offset advanced by \<^verbatim>\<open>byteLength\<close>.
\<close>

theorem encode_writes_byteLength:
  assumes "e = UTF8Encoder \<or> e = BufferEncoder" and "byteLength e v = Inr n"
  shows "\<exists>bs. length bs = n \<and> encode e v buffer offset = Inr (put bs offset buffer, offset + n)"
proof -
  have "lawful e" using assms(1) lawful_UTF8Encoder lawful_BufferEncoder by auto
  from lawful_byteLength [OF this assms(2)] show ?thesis by blast
qed

theorem encode_writes_byteLength_witness:
  "(UTF8Encoder = UTF8Encoder \<or> UTF8Encoder = BufferEncoder)
   \<and> byteLength UTF8Encoder (Str [104, 233, 8364]) = Inr 6
   \<and> (\<exists>bs. length bs = 6
         \<and> encode UTF8Encoder (Str [104, 233, 8364]) [1, 2, 3] 1 = Inr (put bs 1 [1, 2, 3], 1 + 6))"
proof -
  have b: "byteLength UTF8Encoder (Str [104, 233, 8364]) = Inr 6"
    by (simp add: UTF8Encoder_def calculateUTF8Bytes_def calculateCodePoint_def)
  show ?thesis using encode_writes_byteLength [of UTF8Encoder "Str [104, 233, 8364]" 6 "[1, 2, 3]" 1] b
    by simp
qed

subsection \<open>Segments of the layout\<close>

lemma length_be16 [simp]: "length (be16 v) = 2" by (simp add: be16_def)
lemma length_be24 [simp]: "length (be24 v) = 3" by (simp add: be24_def)
lemma length_be32 [simp]: "length (be32 v) = 4" by (simp add: be32_def)
lemma length_be64 [simp]: "length (be64 v) = 8" by (simp add: be64_def)
lemma length_headerBytes [simp]: "length (headerBytes sid t fl) = 6" by (simp add: headerBytes_def)

lemma be_val3': "be_val [a, b, c] = uint a * 65536 + uint b * 256 + uint c"
  by (simp add: be_val_def)

lemma be_val_be16: "be_val (be16 v) = v mod 65536"
  by (simp add: be16_def be_val2 uint8_of_int be2_split)

lemma be_val_be24: "be_val (be24 v) = v mod 16777216"
  by (simp add: be24_def be_val3' uint8_of_int be3_split)

lemma be_val_be32: "be_val (be32 v) = v mod 4294967296"
  by (simp add: be32_def be_val4 uint8_of_int be4_split)

lemma be_val_append: "be_val (xs @ ys) = be_val xs * 256 ^ length ys + be_val ys"
proof (induction ys rule: rev_induct)
  case Nil
  then show ?case by (simp add: be_val_def)
next
  case (snoc y ys)
  have "be_val (xs @ ys @ [y]) = be_val (xs @ ys) * 256 + uint y"
    by (simp add: be_val_def)
  moreover have "be_val (ys @ [y]) = be_val ys * 256 + uint y"
    by (simp add: be_val_def)
  ultimately show ?case using snoc by (simp add: algebra_simps)
qed

lemma be64_split: "be64 v = be32 (v div 4294967296) @ be32 v"
proof -
  have "v div 4294967296 div 16777216 = v div 72057594037927936"
    "v div 4294967296 div 65536 = v div 281474976710656"
    "v div 4294967296 div 256 = v div 1099511627776"
    using zdiv_zmult2_eq [of 16777216 v 4294967296] zdiv_zmult2_eq [of 65536 v 4294967296]
      zdiv_zmult2_eq [of 256 v 4294967296] by simp_all
  then show ?thesis by (simp add: be64_def be32_def)
qed

lemma be_val_be64: "be_val (be64 v) = v mod 18446744073709551616"
proof -
  have "be_val (be64 v) = (v div 4294967296) mod 4294967296 * 4294967296 + v mod 4294967296"
    unfolding be64_split be_val_append be_val_be32 by simp
  then show ?thesis using zmod_zmult2_eq [of 4294967296 v 4294967296] by simp
qed

lemma writeUint8_put: "writeUint8 v off buf = put [word_of_int v] off buf"
  by (simp add: writeUint8_def)

lemma writeUint16_put: "writeUint16 v off buf = put (be16 v) off buf"
  by (simp add: writeUint16_def be16_def)

lemma writeUint32_put: "writeUint32 v off buf = put (be32 v) off buf"
  by (simp add: writeUint32_def be32_def)

lemma writeUint64_put: "writeUint64 v off buf = put (be64 (fromNumber v)) off buf"
  by (simp add: writeUint64_def be64_def Let_def)

lemma writeUint24_put: "writeUint24 buf v off = put (be24 v) off buf"
  by (simp add: writeUint24_bytes be24_def)

lemma allocate_filled: "allocate n = filled [] n"
  by (simp add: allocate_def filled_def)

lemma put_filled:
  "off = length w \<Longrightarrow> length w + length bs \<le> n \<Longrightarrow> put bs off (filled w n) = filled (w @ bs) n"
  by (simp add: put_def filled_def)

lemma filled_full: "n \<le> length w \<Longrightarrow> filled w n = w"
  by (simp add: filled_def)

lemma writeHeader_allocate:
  "6 \<le> n \<Longrightarrow> writeHeader sid t fl (allocate n) = (filled (headerBytes sid t fl) n, 6)"
  by (simp add: writeHeader_bytes allocate_def filled_def headerBytes_def be32_def be16_def)

subsection \<open>Reading a buffer in segments\<close>

lemma rd_peel: "length pre \<le> off \<Longrightarrow> rd n (pre @ rest) off = rd n rest (off - length pre)"
  by (auto simp: rd_def)

lemma rd_head: "off + n \<le> length pre \<Longrightarrow> rd n (pre @ rest) off = rd n pre off"
  by (simp add: rd_def)

lemma rd_self: "length bs = n \<Longrightarrow> rd n bs 0 = Inr (be_val bs)"
  by (simp add: rd_def)

lemma slice_peel:
  "length pre \<le> s \<Longrightarrow> s \<le> t \<Longrightarrow>
     slice (pre @ rest) s t = slice rest (s - length pre) (t - length pre)"
  by (auto simp: slice_def)

lemma slice_head: "t \<le> length pre \<Longrightarrow> slice (pre @ rest) s t = slice pre s t"
  by (simp add: slice_def)

lemma readUint24_peel:
  "length pre \<le> off \<Longrightarrow> readUint24 (pre @ rest) off = readUint24 rest (off - length pre)"
  by (simp add: readUint24_def readUint8_def rd_peel Suc_diff_le)

lemma readUint24_be24: "readUint24 (be24 v @ rest) 0 = Inr (v mod 16777216)"
  using readUint24_bytes [of "[]" 0 "word_of_int (v div 65536)" "word_of_int (v div 256)" "word_of_int v" rest]
  by (simp add: be24_def uint8_of_int be3_split)

lemma readUint24_be24_end: "readUint24 (be24 v) 0 = Inr (v mod 16777216)"
  using readUint24_be24 [of v "[]"] by simp

subsection \<open>Writing the payload section\<close>

lemma lawfulSetD:
  "lawfulSet E \<Longrightarrow> lawful (enc_data E)" "lawfulSet E \<Longrightarrow> lawful (enc_dataMimeType E)"
  "lawfulSet E \<Longrightarrow> lawful (enc_message E)" "lawfulSet E \<Longrightarrow> lawful (enc_metadata E)"
  "lawfulSet E \<Longrightarrow> lawful (enc_metadataMimeType E)" "lawfulSet E \<Longrightarrow> lawful (enc_resumeToken E)"
  by (simp_all add: lawfulSet_def)

lemma put_Nil: "off \<le> length buf \<Longrightarrow> put [] off buf = buf"
  by (simp add: put_def)

lemma lengthOf_wire: "lawful e \<Longrightarrow> wireOpt e x = Some bs \<Longrightarrow> lengthOf e x = Inr (length bs)"
  by (cases x) (simp_all add: wireOpt_def lengthOf_def lawful_byteLength_Some)

lemma encodeOpt_wire:
  "lawful e \<Longrightarrow> wireOpt e x = Some bs \<Longrightarrow> off \<le> length buf \<Longrightarrow>
     encodeOpt e x buf off = Inr (put bs off buf, off + length bs)"
  by (cases x) (auto simp: wireOpt_def encodeOpt_def lawful_encode_Some put_Nil)

lemma encodeOpt_filled:
  "lawful e \<Longrightarrow> wireOpt e x = Some bs \<Longrightarrow> off = length w \<Longrightarrow> length w + length bs \<le> n \<Longrightarrow>
     encodeOpt e x (filled w n) off = Inr (filled (w @ bs) n, off + length bs)"
  using encodeOpt_wire [of e x bs off "filled w n"] by (simp add: put_filled) (simp add: filled_def)

lemma payloadSection_cases:
  assumes "payloadSection E fl m d = Some pb"
  obtains db where "\<not> isMetadata fl" "wireOpt (enc_data E) d = Some db" "pb = db"
  | db mb where "isMetadata fl" "wireOpt (enc_data E) d = Some db"
      "wireOpt (enc_metadata E) m = Some mb" "pb = be24 (int (length mb)) @ mb @ db"
  using assms by (auto simp: payloadSection_def split: Option.bind_splits if_splits)

lemma fieldLength_wire:
  "lawful e \<Longrightarrow> wireOpt e x = Some bs \<Longrightarrow> fieldLength e x = length bs"
  by (cases x) (simp_all add: wireOpt_def fieldLength_def lawful_byteLength_Some)

lemma getPayloadLength_section:
  assumes "lawfulSet E" "payloadSection E (flags f) (metadata f) (data f) = Some pb"
  shows "getPayloadLength f E = Inr (length pb)"
  using assms(2)
proof (cases rule: payloadSection_cases)
  case (1 db)
  then show ?thesis using lawfulSetD(1) [OF assms(1)]
    by (cases "data f") (simp_all add: getPayloadLength_def wireOpt_def lawful_byteLength_Some)
next
  case (2 db mb)
  then show ?thesis using lawfulSetD(1) [OF assms(1)] lawfulSetD(4) [OF assms(1)]
    by (cases "data f"; cases "metadata f")
      (simp_all add: getPayloadLength_def wireOpt_def lawful_byteLength_Some UINT24_SIZE_def)
qed

lemma payloadSize_section:
  assumes "lawfulSet E" "payloadSection E fl m d = Some pb"
  shows "payloadSize E fl m d = length pb"
  using assms(2)
proof (cases rule: payloadSection_cases)
  case (1 db)
  then show ?thesis using fieldLength_wire [OF lawfulSetD(1) [OF assms(1)]]
    by (simp add: payloadSize_def)
next
  case (2 db mb)
  then show ?thesis
    using fieldLength_wire [OF lawfulSetD(1) [OF assms(1)]]
      fieldLength_wire [OF lawfulSetD(4) [OF assms(1)]]
    by (simp add: payloadSize_def)
qed

lemma writePayload_section:
  assumes "lawfulSet E" "payloadSection E (flags f) (metadata f) (data f) = Some pb"
    "offset \<le> length buffer"
  shows "writePayload f buffer E offset = Inr (put pb offset buffer)"
  using assms(2)
proof (cases rule: payloadSection_cases)
  case (1 db)
  then show ?thesis using lawfulSetD(1) [OF assms(1)] assms(3)
    by (cases "data f") (simp_all add: writePayload_def wireOpt_def lawful_encode_Some put_Nil)
next
  case (2 db mb)
  note ld = lawfulSetD(1) [OF assms(1)] and lm = lawfulSetD(4) [OF assms(1)]
  have l3: "offset + 3 \<le> length (put (be24 v) offset buffer)" for v
    using assms(3) by (simp add: length_put)
  have m: "bindE (case metadata f of
                 Some m \<Rightarrow>
                   bindE (byteLength (enc_metadata E) m) (\<lambda>metaLength.
                   let buffer = writeUint24 buffer (int metaLength) offset;
                       offset = offset + UINT24_SIZE
                   in encode (enc_metadata E) m buffer offset)
               | None \<Rightarrow>
                   (let buffer = writeUint24 buffer 0 offset;
                        offset = offset + UINT24_SIZE
                    in Inr (buffer, offset))) k
      = k (put (be24 (int (length mb)) @ mb) offset buffer, offset + 3 + length mb)" for k :: "ByteBuffer \<times> nat \<Rightarrow> error + ByteBuffer"
  proof (cases "metadata f")
    case None
    then have "mb = []" using 2 by (simp add: wireOpt_def)
    then show ?thesis using None by (simp add: writeUint24_put UINT24_SIZE_def)
  next
    case (Some mv)
    then have w: "wire (enc_metadata E) mv = Some mb" using 2 by (simp add: wireOpt_def)
    show ?thesis using Some
      by (simp add: lawful_byteLength_Some [OF lm w] lawful_encode_Some [OF lm w]
          writeUint24_put UINT24_SIZE_def put_put)
  qed
  have d: "(case data f of
       Some d \<Rightarrow> bindE (encode (enc_data E) d buf off) (\<lambda>(buffer, _). Inr buffer)
     | None \<Rightarrow> Inr buf) = Inr (put db off buf)" if "off \<le> length buf" for buf off
  proof (cases "data f")
    case None
    then have "db = []" using 2 by (simp add: wireOpt_def)
    then show ?thesis using None that by (simp add: put_Nil)
  next
    case (Some dv)
    then have w: "wire (enc_data E) dv = Some db" using 2 by (simp add: wireOpt_def)
    show ?thesis using Some by (simp add: lawful_encode_Some [OF ld w])
  qed
  have l: "offset + 3 + length mb \<le> length (put (be24 (int (length mb)) @ mb) offset buffer)"
    by (simp add: length_put)
  have pp: "put db (offset + 3 + length mb) (put (be24 (int (length mb)) @ mb) offset buffer)
      = put (be24 (int (length mb)) @ mb @ db) offset buffer"
    using put_put [of "be24 (int (length mb)) @ mb" db offset buffer] by (simp add: ac_simps)
  show ?thesis
    unfolding writePayload_def using 2(1) by (simp add: m d [OF l] 2(4) pp)
qed

lemma writePayload_filled:
  assumes "lawfulSet E" "payloadSection E (flags f) (metadata f) (data f) = Some pb"
    "off = length w" "length w + length pb \<le> n"
  shows "writePayload f (filled w n) E off = Inr (filled (w @ pb) n)"
proof -
  have "off \<le> length (filled w n)" using assms(3,4) by (simp add: filled_def)
  from writePayload_section [OF assms(1,2) this] show ?thesis
    using assms(3,4) by (simp add: put_filled)
qed

subsection \<open>The serializers write the layout\<close>

lemmas sizes = FRAME_HEADER_SIZE_def UINT24_SIZE_def SETUP_FIXED_SIZE_def ERROR_FIXED_SIZE_def
  KEEPALIVE_FIXED_SIZE_def LEASE_FIXED_SIZE_def REQUEST_MANY_HEADER_def REQUEST_N_HEADER_def

lemmas frame_types = FRAME_TYPES_SETUP_def FRAME_TYPES_LEASE_def FRAME_TYPES_KEEPALIVE_def
  FRAME_TYPES_REQUEST_RESPONSE_def FRAME_TYPES_REQUEST_FNF_def FRAME_TYPES_REQUEST_STREAM_def
  FRAME_TYPES_REQUEST_CHANNEL_def FRAME_TYPES_REQUEST_N_def FRAME_TYPES_CANCEL_def
  FRAME_TYPES_PAYLOAD_def FRAME_TYPES_ERROR_def

lemmas writes_put = writeUint8_put writeUint16_put writeUint32_put writeUint64_put

lemma serializeCancelFrame_layout:
  "serializeCancelFrame (CancelFrame fl sid) E = Inr (headerBytes sid FRAME_TYPES_CANCEL fl)"
  by (simp add: serializeCancelFrame_def sizes writeHeader_allocate filled_full)

lemma serializeRequestNFrame_layout:
  "serializeRequestNFrame (RequestNFrame fl n sid) E
     = Inr (headerBytes sid FRAME_TYPES_REQUEST_N fl @ be32 n)"
  by (simp add: serializeRequestNFrame_def sizes writeHeader_allocate writes_put put_filled
      filled_full)

lemma serializePayloadFrame_layout:
  assumes "lawfulSet E" "payloadSection E fl m d = Some pb"
  shows "serializePayloadFrame (PayloadFrame d fl m sid) E
     = Inr (headerBytes sid FRAME_TYPES_PAYLOAD fl @ pb)"
proof -
  let ?f = "PayloadFrame d fl m sid"
  let ?H = "headerBytes sid FRAME_TYPES_PAYLOAD fl"
  have p: "payloadSection E (flags ?f) (metadata ?f) (data ?f) = Some pb" using assms(2) by simp
  have w: "writePayload ?f (filled ?H (6 + length pb)) E 6 = Inr (filled (?H @ pb) (6 + length pb))"
    by (rule writePayload_filled [OF assms(1) p]) simp_all
  show ?thesis
    by (simp add: serializePayloadFrame_def sizes getPayloadLength_section [OF assms(1) p]
        writeHeader_allocate w filled_full)
qed

lemma serializeRequestFrame_layout:
  assumes "lawfulSet E" "payloadSection E (flags f) (metadata f) (data f) = Some pb"
  shows "serializeRequestFrame f E
     = Inr (headerBytes (streamId f) (frame_type f) (flags f) @ pb)"
proof -
  let ?H = "headerBytes (streamId f) (frame_type f) (flags f)"
  have w: "writePayload f (filled ?H (6 + length pb)) E 6 = Inr (filled (?H @ pb) (6 + length pb))"
    by (rule writePayload_filled [OF assms]) simp_all
  show ?thesis
    by (simp add: serializeRequestFrame_def sizes getPayloadLength_section [OF assms]
        writeHeader_allocate w filled_full)
qed

lemma serializeRequestManyFrame_layout:
  assumes "lawfulSet E" "payloadSection E (flags f) (metadata f) (data f) = Some pb"
  shows "serializeRequestManyFrame f E
     = Inr (headerBytes (streamId f) (frame_type f) (flags f) @ be32 (requestN f) @ pb)"
proof -
  let ?H = "headerBytes (streamId f) (frame_type f) (flags f) @ be32 (requestN f)"
  have w: "writePayload f (filled ?H (10 + length pb)) E 10 = Inr (filled (?H @ pb) (10 + length pb))"
    by (rule writePayload_filled [OF assms]) simp_all
  show ?thesis
    by (simp add: serializeRequestManyFrame_def sizes getPayloadLength_section [OF assms]
        writeHeader_allocate writes_put put_filled w filled_full)
qed

lemma serializeErrorFrame_layout:
  assumes "lawfulSet E" "wireOpt (enc_message E) msg = Some mb"
  shows "serializeErrorFrame (ErrorFrame c fl msg sid) E
     = Inr (headerBytes sid FRAME_TYPES_ERROR fl @ be32 c @ mb)"
proof -
  let ?H = "headerBytes sid FRAME_TYPES_ERROR fl @ be32 c"
  note l = lawfulSetD(3) [OF assms(1)]
  have e: "encodeOpt (enc_message E) msg (filled ?H (10 + length mb)) 10
      = Inr (filled (?H @ mb) (10 + length mb), 10 + length mb)"
    by (rule encodeOpt_filled [OF l assms(2)]) simp_all
  show ?thesis
    by (simp add: serializeErrorFrame_def sizes lengthOf_wire [OF l assms(2)]
        writeHeader_allocate writes_put put_filled e filled_full)
qed

lemma serializeKeepAliveFrame_layout:
  assumes "lawfulSet E" "wireOpt (enc_data E) d = Some db"
  shows "serializeKeepAliveFrame (KeepAliveFrame d fl p sid) E
     = Inr (headerBytes sid FRAME_TYPES_KEEPALIVE fl @ be64 (fromNumber p) @ db)"
proof -
  let ?H = "headerBytes sid FRAME_TYPES_KEEPALIVE fl @ be64 (fromNumber p)"
  note l = lawfulSetD(1) [OF assms(1)]
  have e: "encodeOpt (enc_data E) d (filled ?H (14 + length db)) 14
      = Inr (filled (?H @ db) (14 + length db), 14 + length db)"
    by (rule encodeOpt_filled [OF l assms(2)]) simp_all
  show ?thesis
    by (simp add: serializeKeepAliveFrame_def sizes lengthOf_wire [OF l assms(2)]
        writeHeader_allocate writes_put put_filled e filled_full)
qed

lemma serializeLeaseFrame_layout:
  assumes "lawfulSet E" "wireOpt (enc_metadata E) m = Some mb"
  shows "serializeLeaseFrame (LeaseFrame fl m rc sid t) E
     = Inr (headerBytes sid FRAME_TYPES_LEASE fl @ be32 t @ be32 rc @ mb)"
proof -
  let ?H = "headerBytes sid FRAME_TYPES_LEASE fl @ be32 t @ be32 rc"
  note l = lawfulSetD(4) [OF assms(1)]
  have e: "encodeOpt (enc_metadata E) m (filled ?H (14 + length mb)) 14
      = Inr (filled (?H @ mb) (14 + length mb), 14 + length mb)"
    by (rule encodeOpt_filled [OF l assms(2)]) simp_all
  show ?thesis
    by (simp add: serializeLeaseFrame_def sizes lengthOf_wire [OF l assms(2)]
        writeHeader_allocate writes_put put_filled e filled_full)
qed

lemma serializeSetupFrame_layout:
  assumes "lawfulSet E" "wireOpt (enc_resumeToken E) rt = Some rtb"
    "wireOpt (enc_metadataMimeType E) mm = Some mmb"
    "wireOpt (enc_dataMimeType E) dm = Some dmb" "payloadSection E fl m d = Some pb"
  shows "serializeSetupFrame (SetupFrame d dm fl ka lt mj m mm mi rt sid) E
     = Inr (headerBytes sid FRAME_TYPES_SETUP fl @ be16 mj @ be16 mi @ be32 ka @ be32 lt
            @ be16 (int (length rtb)) @ rtb @ [word_of_int (int (length mmb))] @ mmb
            @ [word_of_int (int (length dmb))] @ dmb @ pb)"
proof -
  let ?f = "SetupFrame d dm fl ka lt mj m mm mi rt sid"
  note lr = lawfulSetD(6) [OF assms(1)] and lm = lawfulSetD(5) [OF assms(1)]
    and ld = lawfulSetD(2) [OF assms(1)]
  have p: "payloadSection E (flags ?f) (metadata ?f) (data ?f) = Some pb" using assms(5) by simp
  have e1: "encodeOpt (enc_resumeToken E) rt (filled w n) off
      = Inr (filled (w @ rtb) n, off + length rtb)"
    if "off = length w" "length w + length rtb \<le> n" for w n off
    using that by (rule encodeOpt_filled [OF lr assms(2)])
  have e2: "encodeOpt (enc_metadataMimeType E) mm (filled w n) off
      = Inr (filled (w @ mmb) n, off + length mmb)"
    if "off = length w" "length w + length mmb \<le> n" for w n off
    using that by (rule encodeOpt_filled [OF lm assms(3)])
  have e3: "encodeOpt (enc_dataMimeType E) dm (filled w n) off
      = Inr (filled (w @ dmb) n, off + length dmb)"
    if "off = length w" "length w + length dmb \<le> n" for w n off
    using that by (rule encodeOpt_filled [OF ld assms(4)])
  have e4: "writePayload ?f (filled w n) E off = Inr (filled (w @ pb) n)"
    if "off = length w" "length w + length pb \<le> n" for w n off
    using that by (rule writePayload_filled [OF assms(1) p])
  show ?thesis
    by (simp add: serializeSetupFrame_def sizes lengthOf_wire [OF lr assms(2)]
        lengthOf_wire [OF lm assms(3)] lengthOf_wire [OF ld assms(4)]
        getPayloadLength_section [OF assms(1) p]
        writeHeader_allocate writes_put put_filled e1 e2 e3 e4 filled_full)
qed

lemma serializeFrame_layout:
  assumes "lawfulSet E" "layout E f = Some bs"
  shows "serializeFrame f (Some E) = Inr bs"
proof (cases f)
  case (SetupFrame d dm fl ka lt mj m mm mi rt sid)
  from assms(2) obtain rtb mmb dmb pb where
    w: "wireOpt (enc_resumeToken E) rt = Some rtb" "wireOpt (enc_metadataMimeType E) mm = Some mmb"
      "wireOpt (enc_dataMimeType E) dm = Some dmb" "payloadSection E fl m d = Some pb"
    and bs: "bs = headerBytes sid FRAME_TYPES_SETUP fl @ be16 mj @ be16 mi @ be32 ka @ be32 lt
            @ be16 (int (length rtb)) @ rtb @ [word_of_int (int (length mmb))] @ mmb
            @ [word_of_int (int (length dmb))] @ dmb @ pb"
    by (auto simp: layout_def SetupFrame split: Option.bind_splits)
  show ?thesis
    using serializeSetupFrame_layout [OF assms(1) w, of ka lt mj mi sid]
    unfolding bs SetupFrame by (simp add: serializeFrame_def orUtf8_def frame_types)
next
  case (ErrorFrame c fl msg sid)
  then show ?thesis using assms(2)
    by (auto simp: layout_def serializeFrame_def orUtf8_def frame_types
        split: Option.bind_splits
        intro!: serializeErrorFrame_layout [OF assms(1), unfolded frame_types])
next
  case (KeepAliveFrame d fl p sid)
  then show ?thesis using assms(2)
    by (auto simp: layout_def serializeFrame_def orUtf8_def frame_types
        split: Option.bind_splits
        intro!: serializeKeepAliveFrame_layout [OF assms(1), unfolded frame_types])
next
  case (LeaseFrame fl m rc sid t)
  then show ?thesis using assms(2)
    by (auto simp: layout_def serializeFrame_def orUtf8_def frame_types
        split: Option.bind_splits
        intro!: serializeLeaseFrame_layout [OF assms(1), unfolded frame_types])
next
  case (RequestFnfFrame d fl m sid)
  then show ?thesis using assms(2)
    serializeRequestFrame_layout [OF assms(1), of f]
    by (auto simp: layout_def serializeFrame_def orUtf8_def frame_types
        split: Option.bind_splits)
next
  case (RequestResponseFrame d fl m sid)
  then show ?thesis using assms(2)
    serializeRequestFrame_layout [OF assms(1), of f]
    by (auto simp: layout_def serializeFrame_def orUtf8_def frame_types
        split: Option.bind_splits)
next
  case (RequestStreamFrame d fl m n sid)
  then show ?thesis using assms(2)
    serializeRequestManyFrame_layout [OF assms(1), of f]
    by (auto simp: layout_def serializeFrame_def orUtf8_def frame_types
        split: Option.bind_splits)
next
  case (RequestChannelFrame d fl m n sid)
  then show ?thesis using assms(2)
    serializeRequestManyFrame_layout [OF assms(1), of f]
    by (auto simp: layout_def serializeFrame_def orUtf8_def frame_types
        split: Option.bind_splits)
next
  case (RequestNFrame fl n sid)
  then show ?thesis using assms(2)
    by (auto simp: layout_def serializeFrame_def orUtf8_def frame_types
        serializeRequestNFrame_layout [unfolded frame_types])
next
  case (CancelFrame fl sid)
  then show ?thesis using assms(2)
    by (auto simp: layout_def serializeFrame_def orUtf8_def frame_types
        serializeCancelFrame_layout [unfolded frame_types])
next
  case (PayloadFrame d fl m sid)
  then show ?thesis using assms(2)
    by (auto simp: layout_def serializeFrame_def orUtf8_def frame_types
        split: Option.bind_splits
        intro!: serializePayloadFrame_layout [OF assms(1), unfolded frame_types])
qed

subsection \<open>What the serializer does\<close>

lemma acceptsD: "accepts e x \<Longrightarrow> \<exists>bs. wireOpt e x = Some bs"
  by (simp add: accepts_def split: option.splits)

lemma accepts_payloadSection:
  "accepts (enc_data E) d \<Longrightarrow> accepts (enc_metadata E) m \<Longrightarrow> \<exists>pb. payloadSection E fl m d = Some pb"
  by (auto simp: payloadSection_def dest!: acceptsD)

lemma accepted_layout: "accepted E f \<Longrightarrow> \<exists>bs. layout E f = Some bs"
  by (cases f) (auto simp: accepted_def layout_def dest!: acceptsD
      dest: accepts_payloadSection [of E _ _] simp: payloadSection_def)

lemma serializeFrame_orUtf8: "serializeFrame f encoders = serializeFrame f (Some (orUtf8 encoders))"
  by (simp add: serializeFrame_def orUtf8_def)

lemma deserializeFrame_orUtf8:
  "deserializeFrame buffer encoders = deserializeFrame buffer (Some (orUtf8 encoders))"
  by (simp add: deserializeFrame_def orUtf8_def)

text \<open>
  C10: for a frame of any of the eleven kinds, \<^verbatim>\<open>serializeFrame\<close> returns a buffer whenever
  no encoder rejects a field of the frame, whatever the stream id, \<^verbatim>\<open>requestN\<close>, keep-alive,
  lifetime, code and the length of the resume token are: the serializer checks none of them.
\<close>

theorem serializeFrame_never_validates:
  assumes "lawfulSet (orUtf8 encoders)" and "accepted (orUtf8 encoders) f"
  shows "\<exists>buffer. serializeFrame f encoders = Inr buffer"
proof -
  from accepted_layout [OF assms(2)] obtain bs where "layout (orUtf8 encoders) f = Some bs" ..
  from serializeFrame_layout [OF assms(1) this] show ?thesis
    using serializeFrame_orUtf8 [of f encoders] by simp
qed

theorem serializeFrame_never_validates_witness:
  "lawfulSet (orUtf8 None)
   \<and> accepted (orUtf8 None) (RequestStreamFrame (Some (Str [97])) 256 None (- 3) (- 1))
   \<and> (\<exists>buffer. serializeFrame (RequestStreamFrame (Some (Str [97])) 256 None (- 3) (- 1)) None
          = Inr buffer)
   \<and> lawfulSet (orUtf8 (Some BufferEncoders))
   \<and> accepted (orUtf8 (Some BufferEncoders))
        (SetupFrame None None 0 (- 1) 4294967296 70000 None None (- 2) None 5)
   \<and> (\<exists>buffer. serializeFrame
          (SetupFrame None None 0 (- 1) 4294967296 70000 None None (- 2) None 5)
          (Some BufferEncoders) = Inr buffer)"
proof -
  have l: "lawfulSet (orUtf8 None)" "lawfulSet (orUtf8 (Some BufferEncoders))"
    by (simp_all add: orUtf8_def lawfulSet_Utf8Encoders lawfulSet_BufferEncoders)
  have a: "accepted (orUtf8 None) (RequestStreamFrame (Some (Str [97])) 256 None (- 3) (- 1))"
    by (simp add: accepted_def accepts_def wireOpt_def orUtf8_def Utf8Encoders_def
        wire_UTF8Encoder)
  have b: "accepted (orUtf8 (Some BufferEncoders))
        (SetupFrame None None 0 (- 1) 4294967296 70000 None None (- 2) None 5)"
    by (simp add: accepted_def accepts_def wireOpt_def)
  show ?thesis
    using serializeFrame_never_validates [OF l(1) a] serializeFrame_never_validates [OF l(2) b] l a b
    by simp
qed

text \<open>
  C5: the payload section that \<^verbatim>\<open>writePayload\<close> writes at its offset is the one of section 4.5,
  and \<^verbatim>\<open>getPayloadLength\<close> is its length: the \<^verbatim>\<open>byteLength\<close> of the data, and under the METADATA
  flag three more bytes and the \<^verbatim>\<open>byteLength\<close> of the metadata. When the flag is clear the
  section is the data alone, whatever the metadata are; when the flag is set and the
  metadata are absent the section is a length of zero in three bytes, then the data.
\<close>

theorem payload_section:
  assumes "lawfulSet E" and "payloadSection E (flags f) (metadata f) (data f) = Some ps"
    and "offset \<le> length buffer"
  shows "getPayloadLength f E = Inr (length ps)
    \<and> length ps = payloadSize E (flags f) (metadata f) (data f)
    \<and> writePayload f buffer E offset = Inr (put ps offset buffer)
    \<and> (if isMetadata (flags f) then
          (case metadata f of
             None \<Rightarrow> (\<exists>db. wireOpt (enc_data E) (data f) = Some db \<and> ps = [0, 0, 0] @ db)
           | Some m \<Rightarrow> (\<exists>mb db. wire (enc_metadata E) m = Some mb
               \<and> wireOpt (enc_data E) (data f) = Some db
               \<and> ps = be24 (int (length mb)) @ mb @ db))
        else wireOpt (enc_data E) (data f) = Some ps)"
proof -
  have 1: "getPayloadLength f E = Inr (length ps)"
    by (rule getPayloadLength_section [OF assms(1,2)])
  have 2: "length ps = payloadSize E (flags f) (metadata f) (data f)"
    by (rule payloadSize_section [OF assms(1,2), symmetric])
  have 3: "writePayload f buffer E offset = Inr (put ps offset buffer)"
    by (rule writePayload_section [OF assms])
  have 4: "if isMetadata (flags f) then
          (case metadata f of
             None \<Rightarrow> (\<exists>db. wireOpt (enc_data E) (data f) = Some db \<and> ps = [0, 0, 0] @ db)
           | Some m \<Rightarrow> (\<exists>mb db. wire (enc_metadata E) m = Some mb
               \<and> wireOpt (enc_data E) (data f) = Some db
               \<and> ps = be24 (int (length mb)) @ mb @ db))
        else wireOpt (enc_data E) (data f) = Some ps"
    using assms(2)
    by (cases rule: payloadSection_cases) (auto simp: wireOpt_def be24_def split: option.splits)
  show ?thesis using 1 2 3 4 by blast
qed

lemma isMetadata_0: "\<not> isMetadata 0"
  by (simp add: isMetadata_def FLAGS_METADATA_def js_and_def ToInt32_id)

lemma isMetadata_256: "isMetadata 256"
  by (simp add: isMetadata_def FLAGS_METADATA_def js_and_def ToInt32_id)

theorem payload_section_witness:
  "lawfulSet Utf8Encoders
   \<and> payloadSection Utf8Encoders (flags (PayloadFrame (Some (Str [97])) 0 (Some (Str [104, 105])) 1))
        (metadata (PayloadFrame (Some (Str [97])) 0 (Some (Str [104, 105])) 1))
        (data (PayloadFrame (Some (Str [97])) 0 (Some (Str [104, 105])) 1)) = Some [97]
   \<and> 6 \<le> length (allocate 7)
   \<and> getPayloadLength (PayloadFrame (Some (Str [97])) 0 (Some (Str [104, 105])) 1) Utf8Encoders
       = Inr 1
   \<and> writePayload (PayloadFrame (Some (Str [97])) 0 (Some (Str [104, 105])) 1) (allocate 7)
         Utf8Encoders 6 = Inr [0, 0, 0, 0, 0, 0, 97]
   \<and> payloadSection Utf8Encoders (flags (RequestFnfFrame (Some (Str [97])) 256 None 1))
        (metadata (RequestFnfFrame (Some (Str [97])) 256 None 1))
        (data (RequestFnfFrame (Some (Str [97])) 256 None 1)) = Some [0, 0, 0, 97]
   \<and> 6 \<le> length (allocate 10)
   \<and> getPayloadLength (RequestFnfFrame (Some (Str [97])) 256 None 1) Utf8Encoders = Inr 4
   \<and> writePayload (RequestFnfFrame (Some (Str [97])) 256 None 1) (allocate 10) Utf8Encoders 6
       = Inr [0, 0, 0, 0, 0, 0, 0, 0, 0, 97]"
proof -
  have w: "wireOpt UTF8Encoder (Some (Str [97])) = Some [97]"
    by (simp add: wireOpt_def wire_UTF8Encoder encodeUTF8_def encodeUTF8char_def)
  have 1: "payloadSection Utf8Encoders (flags (PayloadFrame (Some (Str [97])) 0 (Some (Str [104, 105])) 1))
        (metadata (PayloadFrame (Some (Str [97])) 0 (Some (Str [104, 105])) 1))
        (data (PayloadFrame (Some (Str [97])) 0 (Some (Str [104, 105])) 1)) = Some [97]"
    by (simp add: payloadSection_def Utf8Encoders_def w isMetadata_0)
  have 2: "payloadSection Utf8Encoders (flags (RequestFnfFrame (Some (Str [97])) 256 None 1))
        (metadata (RequestFnfFrame (Some (Str [97])) 256 None 1))
        (data (RequestFnfFrame (Some (Str [97])) 256 None 1)) = Some [0, 0, 0, 97]"
    by (simp add: payloadSection_def Utf8Encoders_def isMetadata_256 wireOpt_def be24_def
        wire_UTF8Encoder encodeUTF8_def encodeUTF8char_def)
  have a: "(6::nat) \<le> length (allocate 7)" "(6::nat) \<le> length (allocate 10)"
    by (simp_all add: allocate_def)
  have p: "put [97] 6 (allocate 7) = [0, 0, 0, 0, 0, 0, 97]"
    "put [0, 0, 0, 97] 6 (allocate 10) = [0, 0, 0, 0, 0, 0, 0, 0, 0, 97]"
    by (simp_all add: put_def allocate_def eval_nat_numeral)
  show ?thesis
    using payload_section [OF lawfulSet_Utf8Encoders 1 a(1)]
      payload_section [OF lawfulSet_Utf8Encoders 2 a(2)] 1 2 a lawfulSet_Utf8Encoders
    by (simp add: p)
qed

subsection \<open>The parser reads the layout\<close>

lemma rd_Cons: "0 < off \<Longrightarrow> rd n (b # rest) off = rd n rest (off - 1)"
  by (cases off) (simp_all add: rd_def)

lemma rd1_Cons: "rd (Suc 0) (b # rest) 0 = Inr (uint b)"
  by (simp add: rd_def be_val_def)

lemma slice_Cons: "0 < s \<Longrightarrow> s \<le> t \<Longrightarrow> slice (b # rest) s t = slice rest (s - 1) (t - 1)"
  by (cases s; cases t) (simp_all add: slice_def)

lemmas peel = rd_peel rd_head rd_self rd_Cons rd1_Cons slice_peel slice_head slice_whole slice_Cons
  readUint24_peel readUint24_be24 readUint24_be24_end

lemma readInt32_seg:
  "length pre = off \<Longrightarrow> 0 \<le> v \<Longrightarrow> v \<le> 2147483647 \<Longrightarrow>
     readInt32 (pre @ be32 v @ rest) off = Inr v"
  by (simp add: readInt32_def rd_peel rd_head rd_self be_val_be32)

lemma readUint32_seg:
  "length pre = off \<Longrightarrow> 0 \<le> v \<Longrightarrow> v \<le> 4294967295 \<Longrightarrow>
     readUint32 (pre @ be32 v @ rest) off = Inr v"
  by (simp add: readUint32_def rd_peel rd_head rd_self be_val_be32)

lemma readUint16_seg:
  "length pre = off \<Longrightarrow> 0 \<le> v \<Longrightarrow> v \<le> 65535 \<Longrightarrow>
     readUint16 (pre @ be16 v @ rest) off = Inr v"
  by (simp add: readUint16_def rd_peel rd_head rd_self be_val_be16)

lemma readInt16_seg:
  "length pre = off \<Longrightarrow> 0 \<le> v \<Longrightarrow> v \<le> 32767 \<Longrightarrow>
     readInt16 (pre @ be16 v @ rest) off = Inr v"
  by (simp add: readInt16_def rd_peel rd_head rd_self be_val_be16)

lemma readUint64_seg:
  "length pre = off \<Longrightarrow> 0 \<le> v \<Longrightarrow> v \<le> 18446744073709551615 \<Longrightarrow>
     readUint64 (pre @ be64 v @ rest) off = Inr v"
  by (simp add: readUint64_def rd_peel rd_head rd_self be_val_be64)

lemma readUint8_seg:
  "length pre = off \<Longrightarrow> 0 \<le> v \<Longrightarrow> v \<le> 255 \<Longrightarrow>
     readUint8 (pre @ [word_of_int v] @ rest) off = Inr v"
  by (simp add: readUint8_def rd_peel rd1_Cons uint8_of_int)

lemma readUint24_seg:
  "length pre = off \<Longrightarrow> 0 \<le> v \<Longrightarrow> v \<le> 16777215 \<Longrightarrow>
     readUint24 (pre @ be24 v @ rest) off = Inr v"
  by (simp add: readUint24_peel readUint24_be24)

lemma slice_seg:
  "length pre = s \<Longrightarrow> t = s + length bs \<Longrightarrow> slice (pre @ bs @ rest) s t = Inr bs"
  by (simp add: slice_def)

lemma decode_seg:
  assumes "lawful e" "wire e v = Some bs" "wellformed v" "length pre = s" "t = s + length bs"
  shows "decode e (pre @ bs @ rest) s t = Inr v"
  by (subst lawful_decode_slice [OF assms(1)])
    (simp add: slice_seg [OF assms(4,5)] lawful_decode_wire [OF assms(1,2,3)])

lemma header_word:
  assumes "0 \<le> t" "t \<le> 63" "0 \<le> fl" "fl \<le> 1023"
  shows "js_ushr (js_or (js_shl t FRAME_TYPE_OFFFSET) (js_and fl FLAGS_MASK)) FRAME_TYPE_OFFFSET = t"
    "js_and (js_or (js_shl t FRAME_TYPE_OFFFSET) (js_and fl FLAGS_MASK)) FLAGS_MASK = fl"
    "0 \<le> js_or (js_shl t FRAME_TYPE_OFFFSET) (js_and fl FLAGS_MASK)"
    "js_or (js_shl t FRAME_TYPE_OFFFSET) (js_and fl FLAGS_MASK) \<le> 65535"
proof -
  define w where "w = t * 1024 + fl"
  have p: "js_or (js_shl t FRAME_TYPE_OFFFSET) (js_and fl FLAGS_MASK) = w"
    unfolding w_def using assms by (rule pack_type_flags)
  have w: "0 \<le> w" "w < 65536" unfolding w_def using assms by linarith+
  show "js_ushr (js_or (js_shl t FRAME_TYPE_OFFFSET) (js_and fl FLAGS_MASK)) FRAME_TYPE_OFFFSET = t"
    unfolding p using w assms unfolding w_def by (simp add: js_ushr_eq FRAME_TYPE_OFFFSET_def)
  show "js_and (js_or (js_shl t FRAME_TYPE_OFFFSET) (js_and fl FLAGS_MASK)) FLAGS_MASK = fl"
    unfolding p using assms unfolding w_def by (simp add: FLAGS_MASK_def js_and_1023)
  show "0 \<le> js_or (js_shl t FRAME_TYPE_OFFFSET) (js_and fl FLAGS_MASK)"
    "js_or (js_shl t FRAME_TYPE_OFFFSET) (js_and fl FLAGS_MASK) \<le> 65535"
    unfolding p using w by simp_all
qed

lemma deserializeFrame_header:
  assumes "0 \<le> sid" "sid \<le> 2147483647" "0 \<le> t" "t \<le> 63" "0 \<le> fl" "fl \<le> 1023"
  shows "deserializeFrame (headerBytes sid t fl @ body) (Some E) =
      (let buffer = headerBytes sid t fl @ body in
       if t = FRAME_TYPES_SETUP then deserializeSetupFrame buffer sid fl E
       else if t = FRAME_TYPES_PAYLOAD then deserializePayloadFrame buffer sid fl E
       else if t = FRAME_TYPES_ERROR then deserializeErrorFrame buffer sid fl E
       else if t = FRAME_TYPES_KEEPALIVE then deserializeKeepAliveFrame buffer sid fl E
       else if t = FRAME_TYPES_REQUEST_FNF then deserializeRequestFnfFrame buffer sid fl E
       else if t = FRAME_TYPES_REQUEST_RESPONSE then
         deserializeRequestResponseFrame buffer sid fl E
       else if t = FRAME_TYPES_REQUEST_STREAM then deserializeRequestStreamFrame buffer sid fl E
       else if t = FRAME_TYPES_REQUEST_CHANNEL then
         deserializeRequestChannelFrame buffer sid fl E
       else if t = FRAME_TYPES_REQUEST_N then deserializeRequestNFrame buffer sid fl E
       else if t = FRAME_TYPES_CANCEL then deserializeCancelFrame buffer sid fl E
       else if t = FRAME_TYPES_LEASE then deserializeLeaseFrame buffer sid fl E
       else Inl InvariantViolation)"
proof -
  define w where "w = js_or (js_shl t FRAME_TYPE_OFFFSET) (js_and fl FLAGS_MASK)"
  note hw = header_word [OF assms(3-6), folded w_def]
  have h: "headerBytes sid t fl @ body = [] @ be32 sid @ be16 w @ body"
    by (simp add: headerBytes_def w_def)
  have 1: "readInt32 (headerBytes sid t fl @ body) 0 = Inr sid"
    unfolding h using assms(1,2) by (intro readInt32_seg) simp_all
  have h': "headerBytes sid t fl @ body = be32 sid @ be16 w @ body"
    by (simp add: headerBytes_def w_def)
  have 2: "readUint16 (headerBytes sid t fl @ body) 4 = Inr w"
    unfolding h' using hw(3,4) by (intro readUint16_seg) simp_all
  show ?thesis
    unfolding deserializeFrame_def orUtf8_def Let_def using assms(1)
    by (simp add: 1 2 hw(1,2))
qed

lemma sizedD:
  "sized e P v \<Longrightarrow> \<exists>bs. wire e v = Some bs \<and> P (length bs) \<and> wellformed v"
  by (auto simp: sized_def split: option.splits)

lemma decode_to_end:
  assumes "lawful e" "wire e v = Some bs" "wellformed v" "length pre = s"
  shows "decode e (pre @ bs) s (length (pre @ bs)) = Inr v"
  using decode_seg [OF assms(1,2,3,4), of "s + length bs" "[]"] assms(4) by simp

lemma readPayload_section:
  assumes E: "lawfulSet E" and c: "canonicalPayload E fl m d"
    and p: "payloadSection E fl m d = Some pb"
    and f0: "flags f0 = fl" "set_metadata None f0 = f0"
      "\<And>x. set_data None (set_metadata x f0) = set_metadata x f0"
    and off: "length pre = off"
  shows "readPayload (pre @ pb) f0 E off = Inr (set_data d (set_metadata m f0))"
proof -
  note ld = lawfulSetD(1) [OF E] and lm = lawfulSetD(4) [OF E]
  have data: "(if o' < length (pre' @ db) then
       bindE (decode (enc_data E) (pre' @ db) o' (length (pre' @ db)))
         (\<lambda>d. Inr (set_data (Some d) g))
     else Inr g) = Inr (set_data d g)"
    if "wireOpt (enc_data E) d = Some db" "length pre' = o'" "set_data None g = g" for pre' o' db g
  proof (cases d)
    case None
    then show ?thesis using that by (simp add: wireOpt_def)
  next
    case (Some dv)
    from c Some obtain bs where b: "wire (enc_data E) dv = Some bs" "0 < length bs" "wellformed dv"
      by (auto simp: canonicalPayload_def optional_def dest!: sizedD)
    then have "bs = db" using that(1) Some by (simp add: wireOpt_def)
    then show ?thesis
      using decode_to_end [OF ld b(1,3) that(2)] b(2) that(2) Some by simp
  qed
  have sd: "set_data None f0 = f0" using f0(3) [of None] f0(2) by simp
  from p show ?thesis
  proof (cases rule: payloadSection_cases)
    case (1 db)
    then have "m = None" using c by (simp add: canonicalPayload_def)
    then show ?thesis
      unfolding readPayload_def
      using 1 f0 data [OF 1(2) off sd] by (simp add: f0(1) split: if_splits)
  next
    case (2 db mb)
    show ?thesis
    proof (cases m)
      case None
      then have mb: "mb = []" using 2 by (simp add: wireOpt_def)
      have r: "readUint24 (pre @ be24 0 @ db) off = Inr 0"
        using readUint24_seg [OF off, of 0 db] by simp
      have "length (pre @ be24 0) = off + 3" using off by simp
      from data [OF 2(2) this sd] f0 show ?thesis
        unfolding readPayload_def 2(4) mb using 2(1) None
        by (simp add: r UINT24_SIZE_def split: if_splits)
    next
      case (Some mv)
      from c Some 2(1) obtain bs where
        b: "wire (enc_metadata E) mv = Some bs" "0 < length bs" "length bs < 16777216"
          "wellformed mv"
        by (auto simp: canonicalPayload_def optional_def dest!: sizedD)
      then have bs: "bs = mb" using 2(3) Some by (simp add: wireOpt_def)
      have r: "readUint24 (pre @ be24 (int (length mb)) @ mb @ db) off = Inr (int (length mb))"
        using b(3) bs by (intro readUint24_seg [OF off]) simp_all
      have "length (pre @ be24 (int (length mb))) = off + 3" using off by simp
      from decode_seg [OF lm b(1) b(4) this, of "off + 3 + length mb" db]
      have dm: "decode (enc_metadata E) (pre @ be24 (int (length mb)) @ mb @ db) (off + 3)
          (off + 3 + length mb) = Inr mv"
        using bs by simp
      have "length (pre @ be24 (int (length mb)) @ mb) = off + 3 + length mb" using off by simp
      from data [OF 2(2) this f0(3) [of "Some mv"]]
      show ?thesis
        unfolding readPayload_def 2(4) using 2(1) Some b(2) bs
        by (simp add: r UINT24_SIZE_def dm f0(1) split: if_splits)
    qed
  qed
qed

lemma deserializeCancelFrame_layout:
  "0 < sid \<Longrightarrow> deserializeCancelFrame b sid fl E = Inr (CancelFrame fl sid)"
  by (simp add: deserializeCancelFrame_def)

lemma deserializeRequestNFrame_layout:
  assumes "0 < sid" "0 < n" "n \<le> 2147483647" "length H = 6"
  shows "deserializeRequestNFrame (H @ be32 n) sid fl E = Inr (RequestNFrame fl n sid)"
proof -
  have "readInt32 (H @ be32 n) 6 = Inr n"
    using readInt32_seg [OF assms(4), of n "[]"] assms by simp
  then show ?thesis using assms by (simp add: deserializeRequestNFrame_def sizes)
qed

lemma deserializePayloadFrame_layout:
  assumes "lawfulSet E" "canonicalPayload E fl m d" "payloadSection E fl m d = Some pb"
    "0 < sid" "length H = 6"
  shows "deserializePayloadFrame (H @ pb) sid fl E = Inr (PayloadFrame d fl m sid)"
  using readPayload_section [OF assms(1,2,3), of "PayloadFrame None fl None sid" H 6] assms(4,5)
  by (simp add: deserializePayloadFrame_def sizes)

lemma deserializeRequestFnfFrame_layout:
  assumes "lawfulSet E" "canonicalPayload E fl m d" "payloadSection E fl m d = Some pb"
    "0 < sid" "length H = 6"
  shows "deserializeRequestFnfFrame (H @ pb) sid fl E = Inr (RequestFnfFrame d fl m sid)"
  using readPayload_section [OF assms(1,2,3), of "RequestFnfFrame None fl None sid" H 6] assms(4,5)
  by (simp add: deserializeRequestFnfFrame_def sizes)

lemma deserializeRequestResponseFrame_layout:
  assumes "lawfulSet E" "canonicalPayload E fl m d" "payloadSection E fl m d = Some pb"
    "0 < sid" "length H = 6"
  shows "deserializeRequestResponseFrame (H @ pb) sid fl E = Inr (RequestResponseFrame d fl m sid)"
  using readPayload_section [OF assms(1,2,3), of "RequestResponseFrame None fl None sid" H 6]
    assms(4,5)
  by (simp add: deserializeRequestResponseFrame_def sizes)

lemma deserializeRequestStreamFrame_layout:
  assumes "lawfulSet E" "canonicalPayload E fl m d" "payloadSection E fl m d = Some pb"
    "0 < sid" "length H = 6" "0 < n" "n \<le> 2147483647"
  shows "deserializeRequestStreamFrame (H @ be32 n @ pb) sid fl E
     = Inr (RequestStreamFrame d fl m n sid)"
proof -
  have r: "readInt32 (H @ be32 n @ pb) 6 = Inr n"
    using readInt32_seg [OF assms(5), of n pb] assms by simp
  have p: "readPayload (H @ be32 n @ pb) (RequestStreamFrame None fl None n sid) E 10
      = Inr (RequestStreamFrame d fl m n sid)"
    using readPayload_section [OF assms(1,2,3), of "RequestStreamFrame None fl None n sid"
        "H @ be32 n" 10] assms(5) by simp
  show ?thesis using assms(4,6) by (simp add: deserializeRequestStreamFrame_def sizes r p)
qed

lemma deserializeRequestChannelFrame_layout:
  assumes "lawfulSet E" "canonicalPayload E fl m d" "payloadSection E fl m d = Some pb"
    "0 < sid" "length H = 6" "0 < n" "n \<le> 2147483647"
  shows "deserializeRequestChannelFrame (H @ be32 n @ pb) sid fl E
     = Inr (RequestChannelFrame d fl m n sid)"
proof -
  have r: "readInt32 (H @ be32 n @ pb) 6 = Inr n"
    using readInt32_seg [OF assms(5), of n pb] assms by simp
  have p: "readPayload (H @ be32 n @ pb) (RequestChannelFrame None fl None n sid) E 10
      = Inr (RequestChannelFrame d fl m n sid)"
    using readPayload_section [OF assms(1,2,3), of "RequestChannelFrame None fl None n sid"
        "H @ be32 n" 10] assms(5) by simp
  show ?thesis using assms(4,6) by (simp add: deserializeRequestChannelFrame_def sizes r p)
qed

lemma deserializeErrorFrame_layout:
  assumes "lawfulSet E" "wireOpt (enc_message E) msg = Some mb"
    "present (enc_message E) (\<lambda>n. 0 < n) msg
       \<or> (msg = Some (Str []) \<and> wire (enc_message E) (Str []) = Some [])"
    "0 \<le> c" "c \<le> MAX_CODE" "length H = 6"
  shows "deserializeErrorFrame (H @ be32 c @ mb) sid fl E = Inr (ErrorFrame c fl msg sid)"
proof -
  note l = lawfulSetD(3) [OF assms(1)]
  have r: "readInt32 (H @ be32 c @ mb) 6 = Inr c"
    using readInt32_seg [OF assms(6), of c mb] assms(4,5) by (simp add: MAX_CODE_def)
  from assms(3) show ?thesis
  proof
    assume "present (enc_message E) (\<lambda>n. 0 < n) msg"
    then obtain v bs where v: "msg = Some v" "wire (enc_message E) v = Some bs" "0 < length bs"
      "wellformed v"
      by (auto simp: present_def split: option.splits dest!: sizedD)
    then have bs: "bs = mb" using assms(2) by (simp add: wireOpt_def)
    have "length (H @ be32 c) = 10" using assms(6) by simp
    from decode_seg [OF l v(2,4) this, of "10 + length mb" "[]"]
    have "decode (enc_message E) (H @ be32 c @ mb) 10 (10 + length mb) = Inr v"
      using bs by simp
    then show ?thesis
      using v(1,3) bs assms(4,5,6) by (simp add: deserializeErrorFrame_def sizes r)
  next
    assume "msg = Some (Str []) \<and> wire (enc_message E) (Str []) = Some []"
    then have "mb = []" "msg = Some (Str [])" using assms(2) by (simp_all add: wireOpt_def)
    then show ?thesis
      using assms(4,5,6) r by (simp add: deserializeErrorFrame_def sizes)
  qed
qed

lemma optional_decode_to_end:
  assumes "lawful e" "optional e (\<lambda>n. 0 < n) x" "wireOpt e x = Some bs" "length pre = off"
  shows "(if off < length (pre @ bs)
          then bindE (decode e (pre @ bs) off (length (pre @ bs))) (\<lambda>d. Inr (Some d))
          else Inr None) = Inr x"
proof (cases x)
  case None
  then show ?thesis using assms by (simp add: wireOpt_def)
next
  case (Some v)
  from assms(2) Some obtain b where b: "wire e v = Some b" "0 < length b" "wellformed v"
    by (auto simp: optional_def dest!: sizedD)
  then have "b = bs" using assms(3) Some by (simp add: wireOpt_def)
  then show ?thesis using decode_to_end [OF assms(1) b(1,3) assms(4)] b(2) assms(4) Some by simp
qed

lemma toNumber_exact: "v < 9007199254740992 \<Longrightarrow> toNumber v = v"
  by (simp add: toNumber_def)

lemma fromNumber_exact: "0 \<le> v \<Longrightarrow> v < 9007199254740992 \<Longrightarrow> fromNumber v = v"
  by (simp add: fromNumber_def)

lemma fromNumber_bounds: "0 \<le> v \<Longrightarrow> 0 \<le> fromNumber v \<and> fromNumber v \<le> 18446744073709551615"
  by (simp add: fromNumber_def)

lemma deserializeKeepAliveFrame_layout:
  assumes "lawfulSet E" "wireOpt (enc_data E) d = Some db"
    "optional (enc_data E) (\<lambda>n. 0 < n) d" "0 \<le> p" "toNumber (fromNumber p) = p"
    "length H = 6"
  shows "deserializeKeepAliveFrame (H @ be64 (fromNumber p) @ db) 0 fl E
     = Inr (KeepAliveFrame d fl p 0)"
proof -
  have r: "readUint64 (H @ be64 (fromNumber p) @ db) 6 = Inr (fromNumber p)"
    using readUint64_seg [OF assms(6), of "fromNumber p" db] fromNumber_bounds [OF assms(4)]
    by simp
  have "length (H @ be64 (fromNumber p)) = 14" using assms(6) by simp
  from optional_decode_to_end [OF lawfulSetD(1) [OF assms(1)] assms(3,2) this]
  show ?thesis
    using assms(5,6)
    by (simp add: deserializeKeepAliveFrame_def sizes r split: if_splits)
qed

lemma deserializeLeaseFrame_layout:
  assumes "lawfulSet E" "wireOpt (enc_metadata E) m = Some mb"
    "optional (enc_metadata E) (\<lambda>n. 0 < n) m" "0 \<le> t" "t \<le> 4294967295"
    "0 \<le> rc" "rc \<le> 4294967295" "length H = 6"
  shows "deserializeLeaseFrame (H @ be32 t @ be32 rc @ mb) 0 fl E = Inr (LeaseFrame fl m rc 0 t)"
proof -
  have r1: "readUint32 (H @ be32 t @ be32 rc @ mb) 6 = Inr t"
    using readUint32_seg [OF assms(8), of t "be32 rc @ mb"] assms(4,5) by simp
  have "length (H @ be32 t) = 10" using assms(8) by simp
  from readUint32_seg [OF this, of rc mb] assms(6,7)
  have r2: "readUint32 (H @ be32 t @ be32 rc @ mb) 10 = Inr rc" by simp
  have "length (H @ be32 t @ be32 rc) = 14" using assms(8) by simp
  from optional_decode_to_end [OF lawfulSetD(4) [OF assms(1)] assms(3,2) this]
  show ?thesis
    using assms(8) by (simp add: deserializeLeaseFrame_def sizes r1 r2 split: if_splits)
qed

subsection \<open>The header read back\<close>























subsection \<open>The checks of the parser\<close>


lemma rd_not_invariant: "rd n b off \<noteq> Inl InvariantViolation"
  by (simp add: rd_def)

lemma read_not_invariant:
  "readUint8 b off \<noteq> Inl InvariantViolation" "readUint16 b off \<noteq> Inl InvariantViolation"
  "readInt16 b off \<noteq> Inl InvariantViolation" "readUint32 b off \<noteq> Inl InvariantViolation"
  "readInt32 b off \<noteq> Inl InvariantViolation" "readUint64 b off \<noteq> Inl InvariantViolation"
  by (simp_all add: readUint8_def readUint16_def readInt16_def readUint32_def readInt32_def
      readUint64_def bindE_not_invariant rd_not_invariant)

lemma readUint24_not_invariant: "readUint24 b off \<noteq> Inl InvariantViolation"
  unfolding readUint24_def Let_def
  by (intro bindE_not_invariant read_not_invariant) simp



lemma readPayload_not_invariant:
  assumes "lawfulSet E"
  shows "readPayload b f E off \<noteq> Inl InvariantViolation"
proof -
  note d = lawful_decode_not_invariant [OF lawfulSetD(1) [OF assms]]
    and m = lawful_decode_not_invariant [OF lawfulSetD(4) [OF assms]]
  have 1: "(if isMetadata (flags f) then
              bindE (readUint24 b off) (\<lambda>metaLength.
              let offset = off + UINT24_SIZE in
              if metaLength > 0 then
                bindE (decode (enc_metadata E) b offset (offset + nat metaLength))
                  (\<lambda>m. Inr (set_metadata (Some m) f, offset + nat metaLength))
              else Inr (f, offset))
            else Inr (f, off)) \<noteq> Inl InvariantViolation"
  proof (cases "isMetadata (flags f)")
    case True
    have "bindE (readUint24 b off) (\<lambda>metaLength.
              let offset = off + UINT24_SIZE in
              if metaLength > 0 then
                bindE (decode (enc_metadata E) b offset (offset + nat metaLength))
                  (\<lambda>m. Inr (set_metadata (Some m) f, offset + nat metaLength))
              else Inr (f, offset)) \<noteq> Inl InvariantViolation"
      by (rule bindE_not_invariant [OF readUint24_not_invariant])
        (simp add: Let_def bindE_not_invariant m)
    then show ?thesis using True by simp
  next
    case False
    then show ?thesis by simp
  qed
  show ?thesis
    unfolding readPayload_def
  proof (rule bindE_not_invariant [OF 1])
    fix x :: "frame \<times> nat"
    show "(case x of (frame, offset) \<Rightarrow>
        if offset < length b then
          bindE (decode (enc_data E) b offset (length b)) (\<lambda>d. Inr (set_data (Some d) frame))
        else Inr frame) \<noteq> Inl InvariantViolation"
      by (cases x) (simp add: bindE_not_invariant d)
  qed
qed

text \<open>
  C8: let the header of a buffer carry the type REQUEST_STREAM, REQUEST_CHANNEL or REQUEST_N
  and let \<open>n\<close> be its \<^verbatim>\<open>requestN\<close>, the signed 32-bit big-endian integer at offset \<open>6\<close>.
  When \<open>n \<le> 0\<close> the parser throws an invariant violation; when \<open>n > 0\<close> and the stream id is
  positive it throws none (with encoders that throw none), and for REQUEST_N it returns the
  frame.
\<close>

theorem requestN_positive:
  assumes "readInt32 buffer 0 = Inr sid" and "readUint16 buffer 4 = Inr w"
    and "js_ushr w FRAME_TYPE_OFFFSET = t"
    and "t = FRAME_TYPES_REQUEST_STREAM \<or> t = FRAME_TYPES_REQUEST_CHANNEL
         \<or> t = FRAME_TYPES_REQUEST_N"
    and "readInt32 buffer 6 = Inr n" and "lawfulSet (orUtf8 encoders)"
  shows "(n \<le> 0 \<longrightarrow> deserializeFrame buffer encoders = Inl InvariantViolation)
    \<and> (0 < n \<and> 0 < sid \<longrightarrow> deserializeFrame buffer encoders \<noteq> Inl InvariantViolation)
    \<and> (0 < n \<and> 0 < sid \<and> t = FRAME_TYPES_REQUEST_N \<longrightarrow>
          deserializeFrame buffer encoders = Inr (RequestNFrame (js_and w FLAGS_MASK) n sid))"
proof -
  note np = readPayload_not_invariant [OF assms(6)]
  from assms(4) show ?thesis
  proof (elim disjE)
    assume t: "t = FRAME_TYPES_REQUEST_STREAM"
    have "deserializeFrame buffer encoders =
        invariant (sid \<ge> 0) (deserializeRequestStreamFrame buffer sid (js_and w FLAGS_MASK)
          (orUtf8 encoders))"
      using assms(1,2,3) t by (simp add: deserializeFrame_def Let_def frame_types)
    then show ?thesis using assms(5) np t
      by (auto simp: deserializeRequestStreamFrame_def Let_def sizes invariant_def frame_types)
  next
    assume t: "t = FRAME_TYPES_REQUEST_CHANNEL"
    have "deserializeFrame buffer encoders =
        invariant (sid \<ge> 0) (deserializeRequestChannelFrame buffer sid (js_and w FLAGS_MASK)
          (orUtf8 encoders))"
      using assms(1,2,3) t by (simp add: deserializeFrame_def Let_def frame_types)
    then show ?thesis using assms(5) np t
      by (auto simp: deserializeRequestChannelFrame_def Let_def sizes invariant_def frame_types)
  next
    assume t: "t = FRAME_TYPES_REQUEST_N"
    have "deserializeFrame buffer encoders =
        invariant (sid \<ge> 0) (deserializeRequestNFrame buffer sid (js_and w FLAGS_MASK)
          (orUtf8 encoders))"
      using assms(1,2,3) t by (simp add: deserializeFrame_def Let_def frame_types)
    then show ?thesis using assms(5) t
      by (auto simp: deserializeRequestNFrame_def Let_def sizes invariant_def frame_types)
  qed
qed


theorem requestN_positive_witness:
  "readInt32 [0, 0, 0, 1, 24, 0, 255, 255, 255, 255] 0 = Inr 1
   \<and> readUint16 [0, 0, 0, 1, 24, 0, 255, 255, 255, 255] 4 = Inr 6144
   \<and> js_ushr 6144 FRAME_TYPE_OFFFSET = FRAME_TYPES_REQUEST_STREAM
   \<and> readInt32 [0, 0, 0, 1, 24, 0, 255, 255, 255, 255] 6 = Inr (- 1)
   \<and> lawfulSet (orUtf8 None)
   \<and> deserializeFrame [0, 0, 0, 1, 24, 0, 255, 255, 255, 255] None = Inl InvariantViolation
   \<and> readInt32 [0, 0, 0, 1, 32, 0, 0, 0, 0, 5] 0 = Inr 1
   \<and> readUint16 [0, 0, 0, 1, 32, 0, 0, 0, 0, 5] 4 = Inr 8192
   \<and> js_ushr 8192 FRAME_TYPE_OFFFSET = FRAME_TYPES_REQUEST_N
   \<and> readInt32 [0, 0, 0, 1, 32, 0, 0, 0, 0, 5] 6 = Inr 5
   \<and> deserializeFrame [0, 0, 0, 1, 32, 0, 0, 0, 0, 5] None = Inr (RequestNFrame 0 5 1)"
proof -
  have r: "readInt32 [0, 0, 0, 1, 24, 0, 255, 255, 255, 255] 0 = Inr 1"
    "readUint16 [0, 0, 0, 1, 24, 0, 255, 255, 255, 255] 4 = Inr 6144"
    "readInt32 [0, 0, 0, 1, 24, 0, 255, 255, 255, 255] 6 = Inr (- 1)"
    "readInt32 [0, 0, 0, 1, 32, 0, 0, 0, 0, 5] 0 = Inr 1"
    "readUint16 [0, 0, 0, 1, 32, 0, 0, 0, 0, 5] 4 = Inr 8192"
    "readInt32 [0, 0, 0, 1, 32, 0, 0, 0, 0, 5] 6 = Inr 5"
    by (simp_all add: readInt32_def readUint16_def rd_def be_val_def)
  have t: "js_ushr 6144 FRAME_TYPE_OFFFSET = FRAME_TYPES_REQUEST_STREAM"
    "js_ushr 8192 FRAME_TYPE_OFFFSET = FRAME_TYPES_REQUEST_N"
    by (simp_all add: js_ushr_eq FRAME_TYPE_OFFFSET_def frame_types)
  have f: "js_and 8192 FLAGS_MASK = 0" by (simp add: js_and_1023 FLAGS_MASK_def)
  have l: "lawfulSet (orUtf8 None)" by (simp add: orUtf8_def lawfulSet_Utf8Encoders)
  have 1: "deserializeFrame [0, 0, 0, 1, 24, 0, 255, 255, 255, 255] None = Inl InvariantViolation"
    using requestN_positive [OF r(1,2) t(1) _ r(3) l] by simp
  have 2: "deserializeFrame [0, 0, 0, 1, 32, 0, 0, 0, 0, 5] None = Inr (RequestNFrame 0 5 1)"
    using requestN_positive [OF r(4,5) t(2) _ r(6) l] by (simp add: f)
  show ?thesis using r t l 1 2 by simp
qed





text \<open>
  C2: a frame of type REQUEST_FNF, REQUEST_RESPONSE, REQUEST_STREAM, REQUEST_CHANNEL,
  REQUEST_N, PAYLOAD or CANCEL whose header carries the stream id \<open>0\<close> makes the parser throw
  an invariant violation. An ERROR frame with the stream id \<open>0\<close> does not: the parser of the
  ERROR frame checks the code only, and throws exactly when the code is outside
  \<open>0 .. MAX_CODE\<close>.
\<close>

theorem streamId_zero:
  assumes "readInt32 buffer 0 = Inr 0" and "readUint16 buffer 4 = Inr w"
    and "js_ushr w FRAME_TYPE_OFFFSET = t"
  shows "(t = FRAME_TYPES_REQUEST_FNF \<or> t = FRAME_TYPES_REQUEST_RESPONSE
          \<or> t = FRAME_TYPES_REQUEST_STREAM \<or> t = FRAME_TYPES_REQUEST_CHANNEL
          \<or> t = FRAME_TYPES_REQUEST_N \<or> t = FRAME_TYPES_PAYLOAD \<or> t = FRAME_TYPES_CANCEL
          \<longrightarrow> deserializeFrame buffer encoders = Inl InvariantViolation)
    \<and> (t = FRAME_TYPES_ERROR \<and> readInt32 buffer 6 = Inr c
         \<and> lawful (enc_message (orUtf8 encoders)) \<longrightarrow>
          (deserializeFrame buffer encoders = Inl InvariantViolation
             \<longleftrightarrow> \<not> (0 \<le> c \<and> c \<le> MAX_CODE)))"
proof (intro conjI impI)
  assume "t = FRAME_TYPES_REQUEST_FNF \<or> t = FRAME_TYPES_REQUEST_RESPONSE
          \<or> t = FRAME_TYPES_REQUEST_STREAM \<or> t = FRAME_TYPES_REQUEST_CHANNEL
          \<or> t = FRAME_TYPES_REQUEST_N \<or> t = FRAME_TYPES_PAYLOAD \<or> t = FRAME_TYPES_CANCEL"
  then show "deserializeFrame buffer encoders = Inl InvariantViolation"
    using assms
    by (auto simp: deserializeFrame_def Let_def frame_types deserializeRequestFnfFrame_def
        deserializeRequestResponseFrame_def deserializeRequestStreamFrame_def
        deserializeRequestChannelFrame_def deserializeRequestNFrame_def
        deserializePayloadFrame_def deserializeCancelFrame_def)
next
  assume a: "t = FRAME_TYPES_ERROR \<and> readInt32 buffer 6 = Inr c
         \<and> lawful (enc_message (orUtf8 encoders))"
  have "deserializeFrame buffer encoders =
      deserializeErrorFrame buffer 0 (js_and w FLAGS_MASK) (orUtf8 encoders)"
    using assms a by (simp add: deserializeFrame_def Let_def frame_types)
  then show "deserializeFrame buffer encoders = Inl InvariantViolation
             \<longleftrightarrow> \<not> (0 \<le> c \<and> c \<le> MAX_CODE)"
    using a
    by (simp add: deserializeErrorFrame_def Let_def sizes invariant_def bindE_not_invariant
        lawful_decode_not_invariant)
qed

theorem streamId_zero_witness:
  "readInt32 [0, 0, 0, 0, 36, 0] 0 = Inr 0 \<and> readUint16 [0, 0, 0, 0, 36, 0] 4 = Inr 9216
   \<and> js_ushr 9216 FRAME_TYPE_OFFFSET = FRAME_TYPES_CANCEL
   \<and> deserializeFrame [0, 0, 0, 0, 36, 0] None = Inl InvariantViolation
   \<and> readInt32 [0, 0, 0, 0, 44, 0, 128, 0, 0, 1, 97] 0 = Inr 0
   \<and> readUint16 [0, 0, 0, 0, 44, 0, 128, 0, 0, 1, 97] 4 = Inr 11264
   \<and> js_ushr 11264 FRAME_TYPE_OFFFSET = FRAME_TYPES_ERROR
   \<and> readInt32 [0, 0, 0, 0, 44, 0, 128, 0, 0, 1, 97] 6 = Inr (- 2147483647)
   \<and> lawful (enc_message (orUtf8 None))
   \<and> deserializeFrame [0, 0, 0, 0, 44, 0, 128, 0, 0, 1, 97] None = Inl InvariantViolation"
proof -
  let ?a = "[0, 0, 0, 0, 36, 0] :: byte list"
  let ?b = "[0, 0, 0, 0, 44, 0, 128, 0, 0, 1, 97] :: byte list"
  have a: "readInt32 ?a 0 = Inr 0" "readUint16 ?a 4 = Inr 9216"
    by (simp_all add: readInt32_def readUint16_def rd_def be_val_def)
  have b: "readInt32 ?b 0 = Inr 0" "readUint16 ?b 4 = Inr 11264"
    "readInt32 ?b 6 = Inr (- 2147483647)"
    by (simp_all add: readInt32_def readUint16_def rd_def be_val_def)
  have t: "js_ushr 9216 FRAME_TYPE_OFFFSET = FRAME_TYPES_CANCEL"
    "js_ushr 11264 FRAME_TYPE_OFFFSET = FRAME_TYPES_ERROR"
    by (simp_all add: js_ushr_eq FRAME_TYPE_OFFFSET_def frame_types)
  have l: "lawful (enc_message (orUtf8 None))"
    by (simp add: orUtf8_def lawfulSetD(3) [OF lawfulSet_Utf8Encoders])
  have 1: "deserializeFrame ?a None = Inl InvariantViolation"
    using streamId_zero [OF a t(1), of None] by simp
  have 2: "deserializeFrame ?b None = Inl InvariantViolation"
    using streamId_zero [OF b(1,2) t(2), of None "- 2147483647"] b(3) l by simp
  show ?thesis using a b t l 1 2 by simp
qed

text \<open>
  An ERROR frame with the stream id \<open>0\<close>, the code \<open>1\<close> and no message is parsed: the parser
  returns the frame, its message the empty string.
\<close>

theorem error_streamId_zero_parses:
  "deserializeFrame [0, 0, 0, 0, 44, 0, 0, 0, 0, 1] None = Inr (ErrorFrame 1 0 (Some (Str [])) 0)"
proof -
  have r: "readInt32 [0, 0, 0, 0, 44, 0, 0, 0, 0, 1] 0 = Inr 0"
    "readUint16 [0, 0, 0, 0, 44, 0, 0, 0, 0, 1] 4 = Inr 11264"
    "readInt32 [0, 0, 0, 0, 44, 0, 0, 0, 0, 1] 6 = Inr 1"
    by (simp_all add: readInt32_def readUint16_def rd_def be_val_def)
  have t: "js_ushr 11264 FRAME_TYPE_OFFFSET = 11" "js_and 11264 FLAGS_MASK = 0"
    by (simp_all add: js_ushr_eq FRAME_TYPE_OFFFSET_def js_and_1023 FLAGS_MASK_def)
  show ?thesis
    by (simp add: deserializeFrame_def Let_def r t frame_types deserializeErrorFrame_def sizes
        MAX_CODE_def)
qed

subsection \<open>The round trip\<close>

lemma deserializeSetupFrame_layout:
  assumes E: "lawfulSet E"
    and rt: "wire (enc_resumeToken E) rt = Some rtb" "length rtb \<le> 32767" "wellformed rt"
    and mm: "wire (enc_metadataMimeType E) mm = Some mmb" "length mmb \<le> 255" "wellformed mm"
    and dm: "wire (enc_dataMimeType E) dm = Some dmb" "length dmb \<le> 255" "wellformed dm"
    and c: "canonicalPayload E fl m d" and p: "payloadSection E fl m d = Some pb"
    and mj: "0 \<le> mj" "mj \<le> 65535" and mi: "0 \<le> mi" "mi \<le> 65535"
    and ka: "0 \<le> ka" "ka \<le> MAX_KEEPALIVE" and lt: "0 \<le> lt" "lt \<le> MAX_LIFETIME"
    and H: "length H = 6"
  shows "deserializeSetupFrame
      (H @ be16 mj @ be16 mi @ be32 ka @ be32 lt @ be16 (int (length rtb)) @ rtb
         @ [word_of_int (int (length mmb))] @ mmb @ [word_of_int (int (length dmb))] @ dmb @ pb)
      0 fl E
     = Inr (SetupFrame d (Some dm) fl ka lt mj m (Some mm) mi (Some rt) 0)"
proof -
  define B where "B = H @ be16 mj @ be16 mi @ be32 ka @ be32 lt @ be16 (int (length rtb)) @ rtb
         @ [word_of_int (int (length mmb))] @ mmb @ [word_of_int (int (length dmb))] @ dmb @ pb"
  have r1: "readUint16 B 6 = Inr mj"
    unfolding B_def using readUint16_seg [OF H mj] by simp
  have r2: "readUint16 B 8 = Inr mi"
    unfolding B_def using readUint16_seg [of "H @ be16 mj" 8 mi] H mi by simp
  have r3: "readInt32 B 10 = Inr ka"
    unfolding B_def using readInt32_seg [of "H @ be16 mj @ be16 mi" 10 ka] H ka
    by (simp add: MAX_KEEPALIVE_def)
  have r4: "readInt32 B 14 = Inr lt"
    unfolding B_def using readInt32_seg [of "H @ be16 mj @ be16 mi @ be32 ka" 14 lt] H lt
    by (simp add: MAX_LIFETIME_def)
  have r5: "readInt16 B 18 = Inr (int (length rtb))"
    unfolding B_def
    using readInt16_seg [of "H @ be16 mj @ be16 mi @ be32 ka @ be32 lt" 18 "int (length rtb)"]
      H rt(2) by simp
  define P1 where "P1 = H @ be16 mj @ be16 mi @ be32 ka @ be32 lt @ be16 (int (length rtb))"
  have P1: "length P1 = 20" by (simp add: P1_def H)
  have B1: "B = P1 @ rtb @ [word_of_int (int (length mmb))] @ mmb
      @ [word_of_int (int (length dmb))] @ dmb @ pb"
    by (simp add: B_def P1_def)
  have d1: "decode (enc_resumeToken E) B 20 (20 + length rtb) = Inr rt"
    unfolding B1 by (rule decode_seg [OF lawfulSetD(6) [OF E] rt(1,3) P1]) simp
  define P2 where "P2 = P1 @ rtb"
  have P2: "length P2 = 20 + length rtb" by (simp add: P2_def P1)
  have B2: "B = P2 @ [word_of_int (int (length mmb))] @ mmb
      @ [word_of_int (int (length dmb))] @ dmb @ pb"
    by (simp add: B1 P2_def)
  have r6: "readUint8 B (20 + length rtb) = Inr (int (length mmb))"
    unfolding B2 using mm(2) by (intro readUint8_seg [OF P2]) simp_all
  define P3 where "P3 = P2 @ [word_of_int (int (length mmb))]"
  have P3: "length P3 = 21 + length rtb" by (simp add: P3_def P2)
  have B3: "B = P3 @ mmb @ [word_of_int (int (length dmb))] @ dmb @ pb"
    by (simp add: B2 P3_def)
  have d2: "decode (enc_metadataMimeType E) B (21 + length rtb) (21 + length rtb + length mmb)
      = Inr mm"
    unfolding B3 by (rule decode_seg [OF lawfulSetD(5) [OF E] mm(1,3) P3]) simp
  define P4 where "P4 = P3 @ mmb"
  have P4: "length P4 = 21 + length rtb + length mmb" by (simp add: P4_def P3)
  have B4: "B = P4 @ [word_of_int (int (length dmb))] @ dmb @ pb"
    by (simp add: B3 P4_def)
  have r7: "readUint8 B (21 + length rtb + length mmb) = Inr (int (length dmb))"
    unfolding B4 using dm(2) by (intro readUint8_seg [OF P4]) simp_all
  define P5 where "P5 = P4 @ [word_of_int (int (length dmb))]"
  have P5: "length P5 = 22 + length rtb + length mmb" by (simp add: P5_def P4)
  have B5: "B = P5 @ dmb @ pb" by (simp add: B4 P5_def)
  have d3: "decode (enc_dataMimeType E) B (22 + length rtb + length mmb)
      (22 + length rtb + length mmb + length dmb) = Inr dm"
    unfolding B5 by (rule decode_seg [OF lawfulSetD(2) [OF E] dm(1,3) P5]) simp
  define P6 where "P6 = P5 @ dmb"
  have P6: "length P6 = 22 + length rtb + length mmb + length dmb" by (simp add: P6_def P5)
  have B6: "B = P6 @ pb" by (simp add: B5 P6_def)
  have rp: "readPayload B (SetupFrame None (Some dm) fl ka lt mj None (Some mm) mi (Some rt) 0) E
      (22 + length rtb + length mmb + length dmb)
     = Inr (SetupFrame d (Some dm) fl ka lt mj m (Some mm) mi (Some rt) 0)"
    unfolding B6
    using readPayload_section [OF E c p, of
        "SetupFrame None (Some dm) fl ka lt mj None (Some mm) mi (Some rt) 0" P6
        "22 + length rtb + length mmb + length dmb"] P6
    by simp
  have d3': "decode (enc_dataMimeType E) B (22 + (length rtb + length mmb))
      (22 + (length rtb + length mmb) + length dmb) = Inr dm"
    using d3 by (simp add: add.assoc)
  have rp': "readPayload B (SetupFrame None (Some dm) fl ka lt mj None (Some mm) mi (Some rt) 0) E
      (22 + (length rtb + length mmb) + length dmb)
     = Inr (SetupFrame d (Some dm) fl ka lt mj m (Some mm) mi (Some rt) 0)"
    using rp by (simp add: add.assoc)
  have "deserializeSetupFrame B 0 fl E
     = Inr (SetupFrame d (Some dm) fl ka lt mj m (Some mm) mi (Some rt) 0)"
    unfolding deserializeSetupFrame_def Let_def sizes
    using ka lt rt(2)
    by (simp add: r1 r2 r3 r4 r5 r6 r7 d1 d2 d3' rp' MAX_RESUME_LENGTH_def)
  then show ?thesis unfolding B_def .
qed

lemma deserializeFrame_dispatch:
  assumes "0 \<le> sid" "sid \<le> 2147483647" "0 \<le> fl" "fl \<le> 1023"
  shows "deserializeFrame (headerBytes sid FRAME_TYPES_SETUP fl @ body) (Some E)
      = deserializeSetupFrame (headerBytes sid FRAME_TYPES_SETUP fl @ body) sid fl E"
    "deserializeFrame (headerBytes sid FRAME_TYPES_PAYLOAD fl @ body) (Some E)
      = deserializePayloadFrame (headerBytes sid FRAME_TYPES_PAYLOAD fl @ body) sid fl E"
    "deserializeFrame (headerBytes sid FRAME_TYPES_ERROR fl @ body) (Some E)
      = deserializeErrorFrame (headerBytes sid FRAME_TYPES_ERROR fl @ body) sid fl E"
    "deserializeFrame (headerBytes sid FRAME_TYPES_KEEPALIVE fl @ body) (Some E)
      = deserializeKeepAliveFrame (headerBytes sid FRAME_TYPES_KEEPALIVE fl @ body) sid fl E"
    "deserializeFrame (headerBytes sid FRAME_TYPES_REQUEST_FNF fl @ body) (Some E)
      = deserializeRequestFnfFrame (headerBytes sid FRAME_TYPES_REQUEST_FNF fl @ body) sid fl E"
    "deserializeFrame (headerBytes sid FRAME_TYPES_REQUEST_RESPONSE fl @ body) (Some E)
      = deserializeRequestResponseFrame (headerBytes sid FRAME_TYPES_REQUEST_RESPONSE fl @ body)
          sid fl E"
    "deserializeFrame (headerBytes sid FRAME_TYPES_REQUEST_STREAM fl @ body) (Some E)
      = deserializeRequestStreamFrame (headerBytes sid FRAME_TYPES_REQUEST_STREAM fl @ body)
          sid fl E"
    "deserializeFrame (headerBytes sid FRAME_TYPES_REQUEST_CHANNEL fl @ body) (Some E)
      = deserializeRequestChannelFrame (headerBytes sid FRAME_TYPES_REQUEST_CHANNEL fl @ body)
          sid fl E"
    "deserializeFrame (headerBytes sid FRAME_TYPES_REQUEST_N fl @ body) (Some E)
      = deserializeRequestNFrame (headerBytes sid FRAME_TYPES_REQUEST_N fl @ body) sid fl E"
    "deserializeFrame (headerBytes sid FRAME_TYPES_CANCEL fl @ body) (Some E)
      = deserializeCancelFrame (headerBytes sid FRAME_TYPES_CANCEL fl @ body) sid fl E"
    "deserializeFrame (headerBytes sid FRAME_TYPES_LEASE fl @ body) (Some E)
      = deserializeLeaseFrame (headerBytes sid FRAME_TYPES_LEASE fl @ body) sid fl E"
  by (subst deserializeFrame_header [OF assms(1,2) _ _ assms(3,4)];
      simp add: frame_types Let_def)+

lemma optional_wireOpt: "optional e P x \<Longrightarrow> \<exists>bs. wireOpt e x = Some bs"
  by (cases x) (auto simp: optional_def wireOpt_def dest!: sizedD)

lemma presentD:
  "present e P x \<Longrightarrow> \<exists>v bs. x = Some v \<and> wire e v = Some bs \<and> P (length bs) \<and> wellformed v"
  by (cases x) (auto simp: present_def dest!: sizedD)

lemma canonicalPayload_section:
  assumes "canonicalPayload E fl m d"
  shows "\<exists>pb. payloadSection E fl m d = Some pb"
proof -
  from assms have "optional (enc_data E) (\<lambda>n. 0 < n) d" by (simp add: canonicalPayload_def)
  from optional_wireOpt [OF this] obtain db where db: "wireOpt (enc_data E) d = Some db"
    by auto
  show ?thesis
  proof (cases "isMetadata fl")
    case True
    with assms have "optional (enc_metadata E) (\<lambda>n. 0 < n \<and> n < 16777216) m"
      by (simp add: canonicalPayload_def)
    from optional_wireOpt [OF this] obtain mb where "wireOpt (enc_metadata E) m = Some mb"
      by auto
    then show ?thesis using db True by (simp add: payloadSection_def)
  next
    case False
    then show ?thesis using db by (simp add: payloadSection_def)
  qed
qed

lemma canonical_layout:
  assumes "canonical E f"
  shows "\<exists>bs. layout E f = Some bs"
proof (cases f)
  case (SetupFrame d dm fl ka lt mj m mm mi rt sid)
  with assms have 1: "present (enc_resumeToken E) (\<lambda>n. n \<le> 32767) rt"
      "present (enc_metadataMimeType E) (\<lambda>n. n \<le> 255) mm"
      "present (enc_dataMimeType E) (\<lambda>n. n \<le> 255) dm" "canonicalPayload E fl m d"
    by (simp_all add: canonical_def)
  from presentD [OF 1(1)] presentD [OF 1(2)] presentD [OF 1(3)] canonicalPayload_section [OF 1(4)]
  show ?thesis unfolding SetupFrame by (auto simp: layout_def wireOpt_def)
next
  case (ErrorFrame c fl msg sid)
  with assms have "present (enc_message E) (\<lambda>n. 0 < n) msg
               \<or> (msg = Some (Str []) \<and> wire (enc_message E) (Str []) = Some [])"
    by (simp add: canonical_def)
  then show ?thesis unfolding ErrorFrame
    by (auto simp: layout_def wireOpt_def dest!: presentD)
next
  case (KeepAliveFrame d fl p sid)
  with assms have "optional (enc_data E) (\<lambda>n. 0 < n) d" by (simp add: canonical_def)
  from optional_wireOpt [OF this] show ?thesis unfolding KeepAliveFrame
    by (auto simp: layout_def)
next
  case (LeaseFrame fl m rc sid t)
  with assms have "optional (enc_metadata E) (\<lambda>n. 0 < n) m" by (simp add: canonical_def)
  from optional_wireOpt [OF this] show ?thesis unfolding LeaseFrame
    by (auto simp: layout_def)
next
  case (RequestFnfFrame d fl m sid)
  with assms have "canonicalPayload E fl m d" by (simp add: canonical_def)
  from canonicalPayload_section [OF this] show ?thesis unfolding RequestFnfFrame
    by (auto simp: layout_def)
next
  case (RequestResponseFrame d fl m sid)
  with assms have "canonicalPayload E fl m d" by (simp add: canonical_def)
  from canonicalPayload_section [OF this] show ?thesis unfolding RequestResponseFrame
    by (auto simp: layout_def)
next
  case (RequestStreamFrame d fl m n sid)
  with assms have "canonicalPayload E fl m d" by (simp add: canonical_def)
  from canonicalPayload_section [OF this] show ?thesis unfolding RequestStreamFrame
    by (auto simp: layout_def)
next
  case (RequestChannelFrame d fl m n sid)
  with assms have "canonicalPayload E fl m d" by (simp add: canonical_def)
  from canonicalPayload_section [OF this] show ?thesis unfolding RequestChannelFrame
    by (auto simp: layout_def)
next
  case (RequestNFrame fl n sid)
  then show ?thesis by (simp add: layout_def)
next
  case (CancelFrame fl sid)
  then show ?thesis by (simp add: layout_def)
next
  case (PayloadFrame d fl m sid)
  with assms have "canonicalPayload E fl m d" by (simp add: canonical_def)
  from canonicalPayload_section [OF this] show ?thesis unfolding PayloadFrame
    by (auto simp: layout_def)
qed

lemma deserializeFrame_layout:
  assumes E: "lawfulSet E" and c: "canonical E f" and l: "layout E f = Some bs"
  shows "deserializeFrame bs (Some E) = Inr f"
proof (cases f)
  case (SetupFrame d dm fl ka lt mj m mm mi rt sid)
  from c have h: "0 \<le> fl" "fl \<le> 1023" "0 \<le> sid" "sid \<le> 2147483647" "sid = 0"
    and n: "0 \<le> mj" "mj \<le> 65535" "0 \<le> mi" "mi \<le> 65535"
      "0 \<le> ka" "ka \<le> MAX_KEEPALIVE" "0 \<le> lt" "lt \<le> MAX_LIFETIME"
    and p: "present (enc_resumeToken E) (\<lambda>n. n \<le> 32767) rt"
      "present (enc_metadataMimeType E) (\<lambda>n. n \<le> 255) mm"
      "present (enc_dataMimeType E) (\<lambda>n. n \<le> 255) dm"
    and cp: "canonicalPayload E fl m d"
    unfolding SetupFrame by (simp_all add: canonical_def)
  from presentD [OF p(1)] obtain rtv rtb where
    rt: "rt = Some rtv" "wire (enc_resumeToken E) rtv = Some rtb" "length rtb \<le> 32767"
      "wellformed rtv" by auto
  from presentD [OF p(2)] obtain mmv mmb where
    mm: "mm = Some mmv" "wire (enc_metadataMimeType E) mmv = Some mmb" "length mmb \<le> 255"
      "wellformed mmv" by auto
  from presentD [OF p(3)] obtain dmv dmb where
    dm: "dm = Some dmv" "wire (enc_dataMimeType E) dmv = Some dmb" "length dmb \<le> 255"
      "wellformed dmv" by auto
  from canonicalPayload_section [OF cp] obtain pb where pb: "payloadSection E fl m d = Some pb"
    by auto
  have bs: "bs = headerBytes sid FRAME_TYPES_SETUP fl @ be16 mj @ be16 mi @ be32 ka @ be32 lt
      @ be16 (int (length rtb)) @ rtb @ [word_of_int (int (length mmb))] @ mmb
      @ [word_of_int (int (length dmb))] @ dmb @ pb"
    using l unfolding SetupFrame by (simp add: layout_def rt mm dm pb wireOpt_def)
  show ?thesis
    unfolding bs deserializeFrame_dispatch(1) [OF h(3,4,1,2)] SetupFrame
    using deserializeSetupFrame_layout [OF E rt(2,3,4) mm(2,3,4) dm(2,3,4) cp pb n,
        of "headerBytes sid FRAME_TYPES_SETUP fl"] h(5) rt(1) mm(1) dm(1)
    by simp
next
  case (ErrorFrame cd fl msg sid)
  from c have h: "0 \<le> fl" "fl \<le> 1023" "0 \<le> sid" "sid \<le> 2147483647"
    and n: "0 \<le> cd" "cd \<le> MAX_CODE"
    and p: "present (enc_message E) (\<lambda>n. 0 < n) msg
               \<or> (msg = Some (Str []) \<and> wire (enc_message E) (Str []) = Some [])"
    unfolding ErrorFrame by (simp_all add: canonical_def)
  from l obtain mb where mb: "wireOpt (enc_message E) msg = Some mb"
      and bs: "bs = headerBytes sid FRAME_TYPES_ERROR fl @ be32 cd @ mb"
    unfolding ErrorFrame by (auto simp: layout_def split: Option.bind_splits)
  show ?thesis
    unfolding bs deserializeFrame_dispatch(3) [OF h(3,4,1,2)] ErrorFrame
    using deserializeErrorFrame_layout [OF E mb p n, of "headerBytes sid FRAME_TYPES_ERROR fl"]
    by simp
next
  case (KeepAliveFrame d fl p sid)
  from c have h: "0 \<le> fl" "fl \<le> 1023" "0 \<le> sid" "sid \<le> 2147483647" "sid = 0"
    and n: "0 \<le> p" "toNumber (fromNumber p) = p"
    and o: "optional (enc_data E) (\<lambda>n. 0 < n) d"
    unfolding KeepAliveFrame by (simp_all add: canonical_def)
  from l obtain db where db: "wireOpt (enc_data E) d = Some db"
      and bs: "bs = headerBytes sid FRAME_TYPES_KEEPALIVE fl @ be64 (fromNumber p) @ db"
    unfolding KeepAliveFrame by (auto simp: layout_def split: Option.bind_splits)
  show ?thesis
    unfolding bs deserializeFrame_dispatch(4) [OF h(3,4,1,2)] KeepAliveFrame
    using deserializeKeepAliveFrame_layout [OF E db o n,
        of "headerBytes sid FRAME_TYPES_KEEPALIVE fl"] h(5)
    by simp
next
  case (LeaseFrame fl m rc sid t)
  from c have h: "0 \<le> fl" "fl \<le> 1023" "0 \<le> sid" "sid \<le> 2147483647" "sid = 0"
    and n: "0 \<le> t" "t \<le> 4294967295" "0 \<le> rc" "rc \<le> 4294967295"
    and o: "optional (enc_metadata E) (\<lambda>n. 0 < n) m"
    unfolding LeaseFrame by (simp_all add: canonical_def)
  from l obtain mb where mb: "wireOpt (enc_metadata E) m = Some mb"
      and bs: "bs = headerBytes sid FRAME_TYPES_LEASE fl @ be32 t @ be32 rc @ mb"
    unfolding LeaseFrame by (auto simp: layout_def split: Option.bind_splits)
  show ?thesis
    unfolding bs deserializeFrame_dispatch(11) [OF h(3,4,1,2)] LeaseFrame
    using deserializeLeaseFrame_layout [OF E mb o n, of "headerBytes sid FRAME_TYPES_LEASE fl"]
      h(5)
    by simp
next
  case (RequestFnfFrame d fl m sid)
  from c have h: "0 \<le> fl" "fl \<le> 1023" "0 \<le> sid" "sid \<le> 2147483647" "0 < sid"
    and cp: "canonicalPayload E fl m d"
    unfolding RequestFnfFrame by (simp_all add: canonical_def)
  from l obtain pb where pb: "payloadSection E fl m d = Some pb"
      and bs: "bs = headerBytes sid FRAME_TYPES_REQUEST_FNF fl @ pb"
    unfolding RequestFnfFrame by (auto simp: layout_def split: Option.bind_splits)
  show ?thesis
    unfolding bs deserializeFrame_dispatch(5) [OF h(3,4,1,2)] RequestFnfFrame
    using deserializeRequestFnfFrame_layout [OF E cp pb h(5),
        of "headerBytes sid FRAME_TYPES_REQUEST_FNF fl"]
    by simp
next
  case (RequestResponseFrame d fl m sid)
  from c have h: "0 \<le> fl" "fl \<le> 1023" "0 \<le> sid" "sid \<le> 2147483647" "0 < sid"
    and cp: "canonicalPayload E fl m d"
    unfolding RequestResponseFrame by (simp_all add: canonical_def)
  from l obtain pb where pb: "payloadSection E fl m d = Some pb"
      and bs: "bs = headerBytes sid FRAME_TYPES_REQUEST_RESPONSE fl @ pb"
    unfolding RequestResponseFrame by (auto simp: layout_def split: Option.bind_splits)
  show ?thesis
    unfolding bs deserializeFrame_dispatch(6) [OF h(3,4,1,2)] RequestResponseFrame
    using deserializeRequestResponseFrame_layout [OF E cp pb h(5),
        of "headerBytes sid FRAME_TYPES_REQUEST_RESPONSE fl"]
    by simp
next
  case (RequestStreamFrame d fl m n sid)
  from c have h: "0 \<le> fl" "fl \<le> 1023" "0 \<le> sid" "sid \<le> 2147483647" "0 < sid"
    and n: "0 < n" "n \<le> 2147483647"
    and cp: "canonicalPayload E fl m d"
    unfolding RequestStreamFrame by (simp_all add: canonical_def)
  from l obtain pb where pb: "payloadSection E fl m d = Some pb"
      and bs: "bs = headerBytes sid FRAME_TYPES_REQUEST_STREAM fl @ be32 n @ pb"
    unfolding RequestStreamFrame by (auto simp: layout_def split: Option.bind_splits)
  show ?thesis
    unfolding bs deserializeFrame_dispatch(7) [OF h(3,4,1,2)] RequestStreamFrame
    using deserializeRequestStreamFrame_layout [OF E cp pb h(5) _ n,
        of "headerBytes sid FRAME_TYPES_REQUEST_STREAM fl"]
    by simp
next
  case (RequestChannelFrame d fl m n sid)
  from c have h: "0 \<le> fl" "fl \<le> 1023" "0 \<le> sid" "sid \<le> 2147483647" "0 < sid"
    and n: "0 < n" "n \<le> 2147483647"
    and cp: "canonicalPayload E fl m d"
    unfolding RequestChannelFrame by (simp_all add: canonical_def)
  from l obtain pb where pb: "payloadSection E fl m d = Some pb"
      and bs: "bs = headerBytes sid FRAME_TYPES_REQUEST_CHANNEL fl @ be32 n @ pb"
    unfolding RequestChannelFrame by (auto simp: layout_def split: Option.bind_splits)
  show ?thesis
    unfolding bs deserializeFrame_dispatch(8) [OF h(3,4,1,2)] RequestChannelFrame
    using deserializeRequestChannelFrame_layout [OF E cp pb h(5) _ n,
        of "headerBytes sid FRAME_TYPES_REQUEST_CHANNEL fl"]
    by simp
next
  case (RequestNFrame fl n sid)
  from c have h: "0 \<le> fl" "fl \<le> 1023" "0 \<le> sid" "sid \<le> 2147483647" "0 < sid"
    and n: "0 < n" "n \<le> 2147483647"
    unfolding RequestNFrame by (simp_all add: canonical_def)
  have bs: "bs = headerBytes sid FRAME_TYPES_REQUEST_N fl @ be32 n"
    using l unfolding RequestNFrame by (simp add: layout_def)
  show ?thesis
    unfolding bs deserializeFrame_dispatch(9) [OF h(3,4,1,2)] RequestNFrame
    using deserializeRequestNFrame_layout [OF h(5) n,
        of "headerBytes sid FRAME_TYPES_REQUEST_N fl"]
    by simp
next
  case (CancelFrame fl sid)
  from c have h: "0 \<le> fl" "fl \<le> 1023" "0 \<le> sid" "sid \<le> 2147483647" "0 < sid"
    unfolding CancelFrame by (simp_all add: canonical_def)
  have bs: "bs = headerBytes sid FRAME_TYPES_CANCEL fl @ []"
    using l unfolding CancelFrame by (simp add: layout_def)
  show ?thesis
    unfolding bs deserializeFrame_dispatch(10) [OF h(3,4,1,2)] CancelFrame
    using deserializeCancelFrame_layout [OF h(5)]
    by simp
next
  case (PayloadFrame d fl m sid)
  from c have h: "0 \<le> fl" "fl \<le> 1023" "0 \<le> sid" "sid \<le> 2147483647" "0 < sid"
    and cp: "canonicalPayload E fl m d"
    unfolding PayloadFrame by (simp_all add: canonical_def)
  from l obtain pb where pb: "payloadSection E fl m d = Some pb"
      and bs: "bs = headerBytes sid FRAME_TYPES_PAYLOAD fl @ pb"
    unfolding PayloadFrame by (auto simp: layout_def split: Option.bind_splits)
  show ?thesis
    unfolding bs deserializeFrame_dispatch(2) [OF h(3,4,1,2)] PayloadFrame
    using deserializePayloadFrame_layout [OF E cp pb h(5),
        of "headerBytes sid FRAME_TYPES_PAYLOAD fl"]
    by simp
qed

lemma roundtrip_canonical:
  assumes "lawfulSet E" "canonical E f"
  shows "\<exists>b. layout E f = Some b \<and> serializeFrame f (Some E) = Inr b
    \<and> deserializeFrame b (Some E) = Inr f"
proof -
  from canonical_layout [OF assms(2)] obtain b where b: "layout E f = Some b" by auto
  from serializeFrame_layout [OF assms(1) b] deserializeFrame_layout [OF assms b] b
  show ?thesis by simp
qed

lemma canonical_setup:
  "canonical Utf8Encoders
     (SetupFrame None (Some (Str [97, 112, 112, 108, 105, 99, 97, 116, 105, 111, 110, 47, 106, 115, 111, 110]))
        0 60000 180000 1 None
        (Some (Str [97, 112, 112, 108, 105, 99, 97, 116, 105, 111, 110, 47, 106, 115, 111, 110]))
        0 (Some (Str [])) 0)"
  by (simp add: canonical_def canonicalPayload_def optional_def present_def sized_def
      Utf8Encoders_def wire_UTF8Encoder encodeUTF8_def encodeUTF8char_def wellformed_def
      scalar_def isMetadata_0 MAX_KEEPALIVE_def MAX_LIFETIME_def)

lemma layout_setup:
  "layout Utf8Encoders
     (SetupFrame None (Some (Str [97, 112, 112, 108, 105, 99, 97, 116, 105, 111, 110, 47, 106, 115, 111, 110]))
        0 60000 180000 1 None
        (Some (Str [97, 112, 112, 108, 105, 99, 97, 116, 105, 111, 110, 47, 106, 115, 111, 110]))
        0 (Some (Str [])) 0)
   = Some [0, 0, 0, 0, 4, 0, 0, 1, 0, 0, 0, 0, 234, 96, 0, 2, 191, 32, 0, 0,
           16, 97, 112, 112, 108, 105, 99, 97, 116, 105, 111, 110, 47, 106, 115, 111, 110,
           16, 97, 112, 112, 108, 105, 99, 97, 116, 105, 111, 110, 47, 106, 115, 111, 110]"
proof -
  have h: "headerBytes 0 1 0 = [0, 0, 0, 0, 4, 0]"
    by (simp add: headerBytes_def be32_def be16_def pack_type_flags)
  show ?thesis
    by (simp add: layout_def payloadSection_def wireOpt_def Utf8Encoders_def wire_UTF8Encoder
        encodeUTF8_def encodeUTF8char_def isMetadata_0 frame_types h be16_def be32_def)
qed

text \<open>
  C1: for encoders that are lawful and every frame that the parser gives back (the numbers
  within the bounds that the parser checks, data and metadata absent or of at least one
  byte, metadata under the METADATA flag only, the resume token, the MIME types and the
  message present), \<^verbatim>\<open>serializeFrame\<close> returns a buffer and \<^verbatim>\<open>deserializeFrame\<close> of this buffer
  returns the frame: every field is the same, the flags with all their ten bits.
\<close>

theorem roundtrip:
  assumes "lawfulSet (orUtf8 encoders)" and "canonical (orUtf8 encoders) f"
  shows "\<exists>buffer. serializeFrame f encoders = Inr buffer
    \<and> deserializeFrame buffer encoders = Inr f"
proof -
  from roundtrip_canonical [OF assms] obtain b where
    "serializeFrame f (Some (orUtf8 encoders)) = Inr b"
    "deserializeFrame b (Some (orUtf8 encoders)) = Inr f" by auto
  then show ?thesis
    using serializeFrame_orUtf8 [of f encoders] deserializeFrame_orUtf8 [of b encoders] by auto
qed

lemma isMetadata_863: "isMetadata 863"
  by (simp add: isMetadata_def FLAGS_METADATA_def js_and_def ToInt32_id)

lemma wire_abc:
  "wire UTF8Encoder (Str [97, 98, 99]) = Some [97, 98, 99]"
  "wire UTF8Encoder (Str [104, 105]) = Some [104, 105]"
  "wire UTF8Encoder (Str []) = Some []"
  by (simp_all add: wire_UTF8Encoder encodeUTF8_def encodeUTF8char_def)

lemma wellformed_abc:
  "wellformed (Str [97, 98, 99])" "wellformed (Str [104, 105])" "wellformed (Str [])"
  by (simp_all add: wellformed_def scalar_def)

theorem roundtrip_witness:
  "lawfulSet (orUtf8 None)
   \<and> canonical (orUtf8 None) (PayloadFrame (Some (Str [97, 98, 99])) 863 (Some (Str [104, 105])) 1)
   \<and> (\<exists>buffer. serializeFrame (PayloadFrame (Some (Str [97, 98, 99])) 863
                    (Some (Str [104, 105])) 1) None = Inr buffer
         \<and> deserializeFrame buffer None
             = Inr (PayloadFrame (Some (Str [97, 98, 99])) 863 (Some (Str [104, 105])) 1))
   \<and> serializeFrame (PayloadFrame (Some (Str [97, 98, 99])) 863 (Some (Str [104, 105])) 1) None
       = Inr [0, 0, 0, 1, 43, 95, 0, 0, 2, 104, 105, 97, 98, 99]
   \<and> canonical (orUtf8 None)
        (SetupFrame None
           (Some (Str [97, 112, 112, 108, 105, 99, 97, 116, 105, 111, 110, 47, 106, 115, 111, 110]))
           0 60000 180000 1 None
           (Some (Str [97, 112, 112, 108, 105, 99, 97, 116, 105, 111, 110, 47, 106, 115, 111, 110]))
           0 (Some (Str [])) 0)
   \<and> deserializeFrame
        [0, 0, 0, 0, 4, 0, 0, 1, 0, 0, 0, 0, 234, 96, 0, 2, 191, 32, 0, 0,
         16, 97, 112, 112, 108, 105, 99, 97, 116, 105, 111, 110, 47, 106, 115, 111, 110,
         16, 97, 112, 112, 108, 105, 99, 97, 116, 105, 111, 110, 47, 106, 115, 111, 110] None
       = Inr (SetupFrame None
           (Some (Str [97, 112, 112, 108, 105, 99, 97, 116, 105, 111, 110, 47, 106, 115, 111, 110]))
           0 60000 180000 1 None
           (Some (Str [97, 112, 112, 108, 105, 99, 97, 116, 105, 111, 110, 47, 106, 115, 111, 110]))
           0 (Some (Str [])) 0)"
proof -
  let ?f = "PayloadFrame (Some (Str [97, 98, 99])) 863 (Some (Str [104, 105])) 1"
  have l: "lawfulSet (orUtf8 None)" by (simp add: orUtf8_def lawfulSet_Utf8Encoders)
  have c: "canonical (orUtf8 None) ?f"
    by (simp add: orUtf8_def canonical_def canonicalPayload_def optional_def sized_def
        Utf8Encoders_def wire_abc wellformed_abc isMetadata_863)
  have h: "headerBytes 1 10 863 = [0, 0, 0, 1, 43, 95]"
    by (simp add: headerBytes_def be32_def be16_def pack_type_flags)
  have b: "layout Utf8Encoders ?f = Some [0, 0, 0, 1, 43, 95, 0, 0, 2, 104, 105, 97, 98, 99]"
    by (simp add: layout_def payloadSection_def wireOpt_def Utf8Encoders_def wire_abc
        isMetadata_863 frame_types h be24_def)
  have s: "serializeFrame ?f None = Inr [0, 0, 0, 1, 43, 95, 0, 0, 2, 104, 105, 97, 98, 99]"
    using serializeFrame_layout [OF lawfulSet_Utf8Encoders b] serializeFrame_orUtf8 [of ?f None]
    by (simp add: orUtf8_def)
  have d: "deserializeFrame
        [0, 0, 0, 0, 4, 0, 0, 1, 0, 0, 0, 0, 234, 96, 0, 2, 191, 32, 0, 0,
         16, 97, 112, 112, 108, 105, 99, 97, 116, 105, 111, 110, 47, 106, 115, 111, 110,
         16, 97, 112, 112, 108, 105, 99, 97, 116, 105, 111, 110, 47, 106, 115, 111, 110] None
       = Inr (SetupFrame None
           (Some (Str [97, 112, 112, 108, 105, 99, 97, 116, 105, 111, 110, 47, 106, 115, 111, 110]))
           0 60000 180000 1 None
           (Some (Str [97, 112, 112, 108, 105, 99, 97, 116, 105, 111, 110, 47, 106, 115, 111, 110]))
           0 (Some (Str [])) 0)"
    using deserializeFrame_layout [OF lawfulSet_Utf8Encoders canonical_setup layout_setup]
      deserializeFrame_orUtf8 [of _ None]
    by (simp add: orUtf8_def)
  have c2: "canonical (orUtf8 None)
        (SetupFrame None
           (Some (Str [97, 112, 112, 108, 105, 99, 97, 116, 105, 111, 110, 47, 106, 115, 111, 110]))
           0 60000 180000 1 None
           (Some (Str [97, 112, 112, 108, 105, 99, 97, 116, 105, 111, 110, 47, 106, 115, 111, 110]))
           0 (Some (Str [])) 0)"
    using canonical_setup by (simp add: orUtf8_def)
  show ?thesis using roundtrip [OF l c] l c s c2 d by simp
qed

text \<open>
  An ERROR frame without a message is serialized as its header and its code; the parser
  gives the frame back with the empty string for its message.
\<close>

theorem roundtrip_counterexample:
  "serializeFrame (ErrorFrame 1 0 None 5) None = Inr [0, 0, 0, 5, 44, 0, 0, 0, 0, 1]
   \<and> deserializeFrame [0, 0, 0, 5, 44, 0, 0, 0, 0, 1] None
       = Inr (ErrorFrame 1 0 (Some (Str [])) 5)
   \<and> ErrorFrame 1 0 (Some (Str [])) 5 \<noteq> ErrorFrame 1 0 None 5"
proof -
  have h: "headerBytes 5 11 0 = [0, 0, 0, 5, 44, 0]"
    by (simp add: headerBytes_def be32_def be16_def pack_type_flags)
  have b: "layout Utf8Encoders (ErrorFrame 1 0 None 5) = Some [0, 0, 0, 5, 44, 0, 0, 0, 0, 1]"
    by (simp add: layout_def wireOpt_def frame_types h be32_def)
  have s: "serializeFrame (ErrorFrame 1 0 None 5) None = Inr [0, 0, 0, 5, 44, 0, 0, 0, 0, 1]"
    using serializeFrame_layout [OF lawfulSet_Utf8Encoders b]
      serializeFrame_orUtf8 [of "ErrorFrame 1 0 None 5" None]
    by (simp add: orUtf8_def)
  have r: "readInt32 [0, 0, 0, 5, 44, 0, 0, 0, 0, 1] 0 = Inr 5"
    "readUint16 [0, 0, 0, 5, 44, 0, 0, 0, 0, 1] 4 = Inr 11264"
    "readInt32 [0, 0, 0, 5, 44, 0, 0, 0, 0, 1] 6 = Inr 1"
    by (simp_all add: readInt32_def readUint16_def rd_def be_val_def)
  have t: "js_ushr 11264 FRAME_TYPE_OFFFSET = 11" "js_and 11264 FLAGS_MASK = 0"
    by (simp_all add: js_ushr_eq FRAME_TYPE_OFFFSET_def js_and_1023 FLAGS_MASK_def)
  have d: "deserializeFrame [0, 0, 0, 5, 44, 0, 0, 0, 0, 1] None
       = Inr (ErrorFrame 1 0 (Some (Str [])) 5)"
    by (simp add: deserializeFrame_def Let_def r t frame_types deserializeErrorFrame_def sizes
        MAX_CODE_def)
  show ?thesis using s d by simp
qed

lemma incomplete_Nil: "incomplete []"
  by (simp add: incomplete_def)

lemma serializeFrameWithLength_bytes:
  assumes "serializeFrame f enc = Inr b"
  shows "serializeFrameWithLength f enc = Inr (be24 (int (length b)) @ b)"
proof -
  have 1: "writeUint24 (allocate (length b + 3)) (int (length b)) 0
      = filled (be24 (int (length b))) (length b + 3)"
    unfolding writeUint24_put allocate_filled by (subst put_filled) simp_all
  have 2: "copyTo b (filled (be24 (int (length b))) (length b + 3)) 3 0 (length b)
      = be24 (int (length b)) @ b"
    unfolding copyTo_def by (simp add: put_filled filled_full)
  show ?thesis
    unfolding serializeFrameWithLength_def Let_def assms UINT24_SIZE_def by (simp add: 1 2)
qed

lemma loop_tail:
  assumes "incomplete tail" "length pre = off"
  shows "deserializeFrames_loop (pre @ tail) enc acc off = Inr (acc, tail)"
proof -
  have s: "slice (pre @ tail) off (length pre + length tail) = Inr tail"
    using assms(2) by (simp add: slice_def)
  show ?thesis
  proof (cases "length tail \<le> 3")
    case True
    then show ?thesis
      using assms(2) s
      by (subst deserializeFrames_loop.simps)
        (simp add: UINT24_SIZE_def del: deserializeFrames_loop.simps)
  next
    case False
    with assms(1) obtain n where n: "readUint24 tail 0 = Inr n" "length tail < 3 + nat n"
      by (auto simp: incomplete_def UINT24_SIZE_def split: sum.splits)
    have r: "readUint24 (pre @ tail) off = Inr n"
      using readUint24_peel [of pre off tail] assms(2) n by simp
    show ?thesis
      using assms(2) s n(2)
      by (subst deserializeFrames_loop.simps)
        (simp add: UINT24_SIZE_def r del: deserializeFrames_loop.simps)
  qed
qed

lemma loop_frames:
  assumes "list_all2 (\<lambda>f x. deserializeFrame x enc = Inr f \<and> 0 < length x
              \<and> length x < 16777216) fs xs"
    and "incomplete tail" and "length pre = off"
  shows "deserializeFrames_loop
      (pre @ concat (map (\<lambda>x. be24 (int (length x)) @ x) xs) @ tail) enc acc off
     = Inr (acc @ fs, tail)"
  using assms
proof (induction fs xs arbitrary: pre off acc rule: list_all2_induct)
  case Nil
  then show ?case by (simp add: loop_tail del: deserializeFrames_loop.simps)
next
  case (Cons f fs x xs)
  define rest where "rest = concat (map (\<lambda>x. be24 (int (length x)) @ x) xs) @ tail"
  define B where "B = pre @ be24 (int (length x)) @ x @ rest"
  have len: "length B = off + 3 + length x + length rest"
    using Cons.prems(2) by (simp add: B_def)
  have r: "readUint24 B off = Inr (int (length x))"
    unfolding B_def using Cons.hyps(1) by (intro readUint24_seg [OF Cons.prems(2)]) simp_all
  have s: "slice B (off + 3) (off + 3 + length x) = Inr x"
    using slice_seg [of "pre @ be24 (int (length x))" "off + 3" "off + 3 + length x" x rest]
      Cons.prems(2) by (simp add: B_def)
  have ih: "deserializeFrames_loop B enc (acc @ [f]) (off + 3 + length x)
      = Inr (acc @ f # fs, tail)"
    using Cons.IH [OF Cons.prems(1), of "pre @ be24 (int (length x)) @ x" "off + 3 + length x"
        "acc @ [f]"] Cons.prems(2)
    by (simp add: B_def rest_def)
  have "deserializeFrames_loop B enc acc off = Inr (acc @ f # fs, tail)"
    using Cons.hyps(1) len
    by (subst deserializeFrames_loop.simps)
      (simp add: UINT24_SIZE_def r s ih del: deserializeFrames_loop.simps)
  then show ?case by (simp add: B_def rest_def)
qed

lemma deserializeFrame_nonempty: "deserializeFrame b enc = Inr f \<Longrightarrow> 0 < length b"
  by (cases b) (simp_all add: deserializeFrame_def readInt32_def rd_def)

lemma framedD:
  assumes "lawfulSet (orUtf8 encoders)" "framed encoders f b"
  shows "\<exists>x. b = be24 (int (length x)) @ x \<and> deserializeFrame x encoders = Inr f
    \<and> 0 < length x \<and> length x < 16777216"
proof -
  from assms(2) have c: "canonical (orUtf8 encoders) f"
    and s: "serializeFrameWithLength f encoders = Inr b" and n: "length b < 16777216 + 3"
    by (simp_all add: framed_def UINT24_SIZE_def)
  from roundtrip_canonical [OF assms(1) c] obtain x where
    x: "serializeFrame f (Some (orUtf8 encoders)) = Inr x"
      "deserializeFrame x (Some (orUtf8 encoders)) = Inr f" by auto
  then have x': "serializeFrame f encoders = Inr x" "deserializeFrame x encoders = Inr f"
    using serializeFrame_orUtf8 [of f encoders] deserializeFrame_orUtf8 [of x encoders]
    by simp_all
  from serializeFrameWithLength_bytes [OF x'(1)] s have b: "b = be24 (int (length x)) @ x"
    by simp
  with n have "length x < 16777216" by simp
  with b x'(2) deserializeFrame_nonempty [OF x'(2)] show ?thesis by blast
qed

lemma framed_frames:
  assumes "lawfulSet (orUtf8 encoders)" "list_all2 (framed encoders) fs bs"
  shows "\<exists>xs. bs = map (\<lambda>x. be24 (int (length x)) @ x) xs
    \<and> list_all2 (\<lambda>f x. deserializeFrame x encoders = Inr f \<and> 0 < length x
              \<and> length x < 16777216) fs xs"
  using assms(2)
proof (induction fs bs rule: list_all2_induct)
  case Nil
  then show ?case by simp
next
  case (Cons f fs b bs)
  from framedD [OF assms(1) Cons.hyps(1)] obtain x where
    x: "b = be24 (int (length x)) @ x" "deserializeFrame x encoders = Inr f"
      "0 < length x" "length x < 16777216" by auto
  from Cons.IH obtain xs where
    xs: "bs = map (\<lambda>x. be24 (int (length x)) @ x) xs"
      "list_all2 (\<lambda>f x. deserializeFrame x encoders = Inr f \<and> 0 < length x
              \<and> length x < 16777216) fs xs" by auto
  show ?case
    using x xs by (intro exI [of _ "x # xs"]) simp
qed

lemma framed_examples:
  "serializeFrameWithLength (CancelFrame 0 7) None = Inr [0, 0, 6, 0, 0, 0, 7, 36, 0]"
  "serializeFrameWithLength (RequestNFrame 0 16 42) None
     = Inr [0, 0, 10, 0, 0, 0, 42, 32, 0, 0, 0, 0, 16]"
  "serializeFrameWithLength (PayloadFrame (Some (Str [])) 0 None 1) None
     = Inr [0, 0, 6, 0, 0, 0, 1, 40, 0]"
proof -
  have h: "headerBytes 7 9 0 = [0, 0, 0, 7, 36, 0]" "headerBytes 42 8 0 = [0, 0, 0, 42, 32, 0]"
    "headerBytes 1 10 0 = [0, 0, 0, 1, 40, 0]"
    by (simp_all add: headerBytes_def be32_def be16_def pack_type_flags)
  have l: "layout Utf8Encoders (CancelFrame 0 7) = Some [0, 0, 0, 7, 36, 0]"
    "layout Utf8Encoders (RequestNFrame 0 16 42) = Some [0, 0, 0, 42, 32, 0, 0, 0, 0, 16]"
    "layout Utf8Encoders (PayloadFrame (Some (Str [])) 0 None 1) = Some [0, 0, 0, 1, 40, 0]"
    by (simp_all add: layout_def frame_types h be32_def payloadSection_def wireOpt_def
        Utf8Encoders_def wire_abc isMetadata_0)
  have s: "serializeFrame (CancelFrame 0 7) None = Inr [0, 0, 0, 7, 36, 0]"
    "serializeFrame (RequestNFrame 0 16 42) None = Inr [0, 0, 0, 42, 32, 0, 0, 0, 0, 16]"
    "serializeFrame (PayloadFrame (Some (Str [])) 0 None 1) None = Inr [0, 0, 0, 1, 40, 0]"
    using l [THEN serializeFrame_layout [OF lawfulSet_Utf8Encoders]]
      serializeFrame_orUtf8 [of _ None]
    by (simp_all add: orUtf8_def)
  show "serializeFrameWithLength (CancelFrame 0 7) None = Inr [0, 0, 6, 0, 0, 0, 7, 36, 0]"
    using serializeFrameWithLength_bytes [OF s(1)] by (simp add: be24_def)
  show "serializeFrameWithLength (RequestNFrame 0 16 42) None
     = Inr [0, 0, 10, 0, 0, 0, 42, 32, 0, 0, 0, 0, 16]"
    using serializeFrameWithLength_bytes [OF s(2)] by (simp add: be24_def)
  show "serializeFrameWithLength (PayloadFrame (Some (Str [])) 0 None 1) None
     = Inr [0, 0, 6, 0, 0, 0, 1, 40, 0]"
    using serializeFrameWithLength_bytes [OF s(3)] by (simp add: be24_def)
qed

text \<open>
  C3: let a buffer be the concatenation of the length-prefixed serializations of frames
  that the parser gives back, each frame of fewer than \<open>2 ^ 24\<close> bytes, followed by a tail
  that holds no complete frame. Then \<^verbatim>\<open>deserializeFrames\<close> returns these frames in their
  order and the tail as the leftover; without a tail the leftover is empty.
\<close>

theorem deserializeFrames_complete:
  assumes "lawfulSet (orUtf8 encoders)" and "list_all2 (framed encoders) fs bs"
    and "incomplete tail"
  shows "deserializeFrames (concat bs @ tail) encoders = Inr (fs, tail)
    \<and> deserializeFrames (concat bs) encoders = Inr (fs, [])"
proof -
  from framed_frames [OF assms(1,2)] obtain xs where
    xs: "bs = map (\<lambda>x. be24 (int (length x)) @ x) xs"
      "list_all2 (\<lambda>f x. deserializeFrame x encoders = Inr f \<and> 0 < length x
              \<and> length x < 16777216) fs xs" by auto
  from loop_frames [OF xs(2) assms(3), of "[]" 0 "[]"]
    loop_frames [OF xs(2) incomplete_Nil, of "[]" 0 "[]"]
  show ?thesis by (simp add: deserializeFrames_def xs(1) del: deserializeFrames_loop.simps)
qed

theorem deserializeFrames_complete_witness:
  "lawfulSet (orUtf8 None)
   \<and> list_all2 (framed None) [CancelFrame 0 7, RequestNFrame 0 16 42]
        [[0, 0, 6, 0, 0, 0, 7, 36, 0], [0, 0, 10, 0, 0, 0, 42, 32, 0, 0, 0, 0, 16]]
   \<and> incomplete [0, 0, 6, 0, 0, 0]
   \<and> deserializeFrames [0, 0, 6, 0, 0, 0, 7, 36, 0, 0, 0, 10, 0, 0, 0, 42, 32, 0, 0, 0, 0, 16,
                         0, 0, 6, 0, 0, 0] None
       = Inr ([CancelFrame 0 7, RequestNFrame 0 16 42], [0, 0, 6, 0, 0, 0])
   \<and> deserializeFrames [0, 0, 6, 0, 0, 0, 7, 36, 0, 0, 0, 10, 0, 0, 0, 42, 32, 0, 0, 0, 0, 16]
         None
       = Inr ([CancelFrame 0 7, RequestNFrame 0 16 42], [])"
proof -
  have l: "lawfulSet (orUtf8 None)" by (simp add: orUtf8_def lawfulSet_Utf8Encoders)
  have f: "list_all2 (framed None) [CancelFrame 0 7, RequestNFrame 0 16 42]
        [[0, 0, 6, 0, 0, 0, 7, 36, 0], [0, 0, 10, 0, 0, 0, 42, 32, 0, 0, 0, 0, 16]]"
    by (simp add: framed_def framed_examples canonical_def UINT24_SIZE_def)
  have r: "readUint24 [0, 0, 6, 0, 0, 0] 0 = Inr 6"
    using readUint24_be24 [of 6 "[0, 0, 0]"] by (simp add: be24_def)
  have t: "incomplete [0, 0, 6, 0, 0, 0]"
    by (simp add: incomplete_def r UINT24_SIZE_def)
  show ?thesis
    using deserializeFrames_complete [OF l f t] l f t by simp
qed

text \<open>
  A PAYLOAD frame whose data are the empty string is serialized as its header alone; from
  the stream of a CANCEL frame and this frame the parser gives back a PAYLOAD frame without
  data.
\<close>

theorem deserializeFrames_counterexample:
  "serializeFrameWithLength (CancelFrame 0 7) None = Inr [0, 0, 6, 0, 0, 0, 7, 36, 0]
   \<and> serializeFrameWithLength (PayloadFrame (Some (Str [])) 0 None 1) None
       = Inr [0, 0, 6, 0, 0, 0, 1, 40, 0]
   \<and> deserializeFrames ([0, 0, 6, 0, 0, 0, 7, 36, 0] @ [0, 0, 6, 0, 0, 0, 1, 40, 0]) None
       = Inr ([CancelFrame 0 7, PayloadFrame None 0 None 1], [])
   \<and> PayloadFrame None 0 None 1 \<noteq> PayloadFrame (Some (Str [])) 0 None 1"
proof -
  have r: "readInt32 [0, 0, 0, 7, 36, 0] 0 = Inr 7" "readUint16 [0, 0, 0, 7, 36, 0] 4 = Inr 9216"
    "readInt32 [0, 0, 0, 1, 40, 0] 0 = Inr 1" "readUint16 [0, 0, 0, 1, 40, 0] 4 = Inr 10240"
    by (simp_all add: readInt32_def readUint16_def rd_def be_val_def)
  have t: "js_ushr 9216 FRAME_TYPE_OFFFSET = 9" "js_and 9216 FLAGS_MASK = 0"
    "js_ushr 10240 FRAME_TYPE_OFFFSET = 10" "js_and 10240 FLAGS_MASK = 0"
    by (simp_all add: js_ushr_eq FRAME_TYPE_OFFFSET_def js_and_1023 FLAGS_MASK_def)
  have d: "deserializeFrame [0, 0, 0, 7, 36, 0] None = Inr (CancelFrame 0 7)"
    "deserializeFrame [0, 0, 0, 1, 40, 0] None = Inr (PayloadFrame None 0 None 1)"
    by (simp_all add: deserializeFrame_def Let_def r t frame_types deserializeCancelFrame_def
        deserializePayloadFrame_def readPayload_def isMetadata_0 sizes)
  have "list_all2 (\<lambda>f x. deserializeFrame x None = Inr f \<and> 0 < length x \<and> length x < 16777216)
      [CancelFrame 0 7, PayloadFrame None 0 None 1] [[0, 0, 0, 7, 36, 0], [0, 0, 0, 1, 40, 0]]"
    by (simp add: d)
  from loop_frames [OF this incomplete_Nil, of "[]" 0 "[]"]
  have "deserializeFrames ([0, 0, 6, 0, 0, 0, 7, 36, 0] @ [0, 0, 6, 0, 0, 0, 1, 40, 0]) None
       = Inr ([CancelFrame 0 7, PayloadFrame None 0 None 1], [])"
    by (simp add: deserializeFrames_def be24_def del: deserializeFrames_loop.simps)
  then show ?thesis using framed_examples(1,3) by simp
qed

end
